theory Spec2Isabelle
  imports Complex_Main "HOL-Library.Product_Lexorder" "HOL-Library.Extended_Nat"
begin

section \<open>The store: the tables of migration 1.0.0\<close>

text \<open>
  The broker keeps all of its state in PostgreSQL. A table is modelled as the list of its
  rows, in insertion order. Identifiers are time-ordered UUIDs (\<open>v7()\<close>); only their
  order and their equality matter, so they are natural numbers. Timestamps are
  milliseconds since the epoch, the resolution of a JavaScript \<open>Date\<close>. SQL
  \<open>INTEGER\<close> columns and JavaScript numbers that hold integers are \<open>int\<close>; a
  nullable column is an \<open>option\<close>. JSON payloads are opaque strings.
\<close>

type_synonym uuid = nat
type_synonym timestamp = int
type_synonym json = string

datatype message_status = Waiting | Processing | Completed | Failed

datatype consumption_mode = Sequential | Parallel

datatype start_position = Earliest | Latest

datatype retry_strategy = Linear | Exponential

record message_row =
  msg_id :: uuid
  msg_topic_id :: uuid
  msg_data :: json
  msg_created_at :: timestamp
  msg_deliver_at :: "timestamp option"
  msg_priority :: "int option"

record scheduled_message_row =
  sched_topic_id :: uuid
  sched_name :: string
  sched_data :: json
  sched_created_at :: timestamp
  sched_updated_at :: "timestamp option"
  sched_next_occurrence_at :: timestamp
  sched_cron :: string
  sched_deliver_in_ms :: "int option"
  sched_deliver_at :: "timestamp option"
  sched_priority :: "int option"
  sched_repeats :: "int option"
  sched_repeats_made :: int

record subscription_row =
  sub_id :: uuid
  sub_topic_id :: uuid
  sub_name :: string
  sub_created_at :: timestamp
  sub_processing :: bool
  sub_consumption_mode :: consumption_mode
  sub_start_position :: start_position
  sub_max_attempts :: int
  sub_retry_strategy :: retry_strategy
  sub_retry_delay :: int

record subscription_message_row =
  sm_subscription_id :: uuid
  sm_message_id :: uuid
  sm_status :: message_status
  sm_attempts :: int
  sm_available_at :: "timestamp option"
  sm_error_stack :: "string option"
  sm_last_heartbeat_at :: "timestamp option"
  sm_progress :: "json option"
  sm_stale_count :: int

record database =
  messages :: "message_row list"
  scheduled_messages :: "scheduled_message_row list"
  subscriptions :: "subscription_row list"
  subscription_messages :: "subscription_message_row list"

definition empty_database :: database where
  "empty_database =
     \<lparr>messages = [], scheduled_messages = [], subscriptions = [], subscription_messages = []\<rparr>"

text \<open>
  A row of \<open>pg_transit_subscription_messages\<close> inserted with only its key and
  \<open>available_at\<close>: every other column takes the default of the migration
  (\<open>status 'waiting'\<close>, \<open>attempts 0\<close>, \<open>stale_count 0\<close>, the rest \<open>NULL\<close>).
\<close>

definition new_subscription_message ::
  "uuid \<Rightarrow> uuid \<Rightarrow> timestamp option \<Rightarrow> subscription_message_row" where
  "new_subscription_message sid mid avail =
     \<lparr>sm_subscription_id = sid, sm_message_id = mid, sm_status = Waiting, sm_attempts = 0,
      sm_available_at = avail, sm_error_stack = None, sm_last_heartbeat_at = None,
      sm_progress = None, sm_stale_count = 0\<rparr>"

section \<open>The message writer: \<open>insertMessages\<close> (message.ts)\<close>

record MessageOptions =
  deliverInMs :: "int option"
  deliverAt :: "timestamp option"
  priority :: "int option"

definition no_options :: MessageOptions where
  "no_options = \<lparr>deliverInMs = None, deliverAt = None, priority = None\<rparr>"

text \<open>
  \<open>if (options?.deliverInMs) deliverAt = new Date(Date.now() + options.deliverInMs);
  if (options?.deliverAt) deliverAt = options.deliverAt;\<close>
  The first test is JavaScript truthiness: a delay of \<open>0\<close> is falsy and sets nothing.
  A \<open>Date\<close> object is always truthy. An absent options object is \<open>no_options\<close>.
\<close>

definition insert_deliverAt :: "MessageOptions \<Rightarrow> timestamp \<Rightarrow> timestamp option" where
  "insert_deliverAt options now =
     (let d1 = (case deliverInMs options of
                  None \<Rightarrow> None
                | Some ms \<Rightarrow> if ms \<noteq> 0 then Some (now + ms) else None)
      in case deliverAt options of None \<Rightarrow> d1 | Some d \<Rightarrow> Some d)"

text \<open>
  The rows built by \<open>data.map(...)\<close>: one per payload, in order. \<open>v7()\<close> is time-ordered
  and monotonic within a process: the batch takes the consecutive identifiers
  \<open>uuid0, uuid0 + 1, ...\<close>, where \<open>uuid0\<close> is what the generator yields first.
\<close>

definition insert_rows ::
  "uuid \<Rightarrow> uuid \<Rightarrow> json list \<Rightarrow> MessageOptions \<Rightarrow> timestamp \<Rightarrow> message_row list" where
  "insert_rows uuid0 topicId payloads options now =
     map (\<lambda>(u, d).
           \<lparr>msg_id = u, msg_topic_id = topicId, msg_data = d, msg_created_at = now,
            msg_deliver_at = insert_deliverAt options now, msg_priority = priority options\<rparr>)
         (zip [uuid0 ..< uuid0 + length payloads] payloads)"

text \<open>
  The fan-out statement:
  \<open>INSERT INTO pg_transit_subscription_messages (subscription_id, message_id, available_at)
  SELECT s.id, m.id, deliverAt FROM pg_transit_subscriptions s JOIN pg_transit_messages m
  ON m.topic_id = topicId WHERE s.topic_id = topicId AND m.id = ANY (ids)\<close>,
  read against the messages table after the batch has been inserted.
\<close>

definition fan_out ::
  "subscription_row list \<Rightarrow> message_row list \<Rightarrow> uuid \<Rightarrow> uuid list \<Rightarrow> timestamp option
     \<Rightarrow> subscription_message_row list" where
  "fan_out subs msgs topicId ids avail =
     concat (map (\<lambda>s. map (\<lambda>m. new_subscription_message (sub_id s) (msg_id m) avail)
                          (filter (\<lambda>m. msg_topic_id m = topicId \<and> msg_id m \<in> set ids) msgs))
                 (filter (\<lambda>s. sub_topic_id s = topicId) subs))"

definition insertMessages ::
  "database \<Rightarrow> uuid \<Rightarrow> uuid \<Rightarrow> json list \<Rightarrow> MessageOptions \<Rightarrow> timestamp
     \<Rightarrow> database \<times> message_row list" where
  "insertMessages db uuid0 topicId payloads options now =
     (let rows = insert_rows uuid0 topicId payloads options now;
          ids = map msg_id rows;
          msgs = messages db @ rows;
          sms = subscription_messages db
                  @ fan_out (subscriptions db) msgs topicId ids (insert_deliverAt options now)
      in (db\<lparr>messages := msgs, subscription_messages := sms\<rparr>, rows))"

section \<open>Subscriptions (subscription.ts)\<close>

record SubscriptionOptions =
  optConsumptionMode :: "consumption_mode option"
  optStartPosition :: "start_position option"
  optMaxAttempts :: "int option"
  optRetryStrategy :: "retry_strategy option"
  optRetryDelayInMs :: "int option"

text \<open>The fields a \<open>Subscription\<close> object holds once its \<open>init\<close> promise has resolved.\<close>

record Subscription =
  subscriptionId :: uuid
  subscriptionName :: string
  consumptionMode :: consumption_mode
  startPosition :: start_position
  maxAttempts :: int
  retryStrategy :: retry_strategy
  retryDelay :: int

text \<open>
  The errors an operation throws: the \<open>Error\<close> of \<open>getNextMessages\<close> for a count below
  one, the \<open>TypeError\<close> of a property read on \<open>undefined\<close>, and the \<open>RangeError\<close>
  (\<open>Invalid time value\<close>) that the database driver raises when it serialises an invalid
  \<open>Date\<close>.
\<close>

datatype error =
  CountMustBeGreaterThanZero
| TypeError
| RangeError

text \<open>
  The constructor's \<open>init\<close>. \<open>INSERT ... ON CONFLICT (topic_id, name) DO NOTHING
  RETURNING id\<close> inserts and returns the new id when no row has this topic and name, and
  returns nothing otherwise. In the second case the existing row is read with
  \<open>SELECT * FROM pg_transit_subscriptions WHERE name = ${props.name}\<close> and the first row
  of the answer is taken; the query has no \<open>ORDER BY\<close>, the model answers in table
  order. A mismatch of options emits an \<open>error\<close> event, returned here as a flag.
  \<open>newId\<close> is the value of \<open>v7()\<close>.
\<close>

definition subscribe ::
  "database \<Rightarrow> uuid \<Rightarrow> uuid \<Rightarrow> string \<Rightarrow> SubscriptionOptions \<Rightarrow> timestamp
     \<Rightarrow> error + (database \<times> Subscription \<times> bool)" where
  "subscribe db newId topicId name options now =
     (let cm = (case optConsumptionMode options of None \<Rightarrow> Sequential | Some v \<Rightarrow> v);
          sp = (case optStartPosition options of None \<Rightarrow> Latest | Some v \<Rightarrow> v);
          ma = (case optMaxAttempts options of None \<Rightarrow> 1 | Some v \<Rightarrow> v);
          rs = (case optRetryStrategy options of None \<Rightarrow> Linear | Some v \<Rightarrow> v);
          rd = (case optRetryDelayInMs options of None \<Rightarrow> 0 | Some v \<Rightarrow> v)
      in if \<not> (\<exists>s \<in> set (subscriptions db). sub_topic_id s = topicId \<and> sub_name s = name)
         then
           (let row = \<lparr>sub_id = newId, sub_topic_id = topicId, sub_name = name,
                       sub_created_at = now, sub_processing = False,
                       sub_consumption_mode = cm, sub_start_position = sp,
                       sub_max_attempts = ma, sub_retry_strategy = rs, sub_retry_delay = rd\<rparr>;
                backfill = (if sp = Earliest
                            then map (\<lambda>m. new_subscription_message newId (msg_id m) None)
                                     (filter (\<lambda>m. msg_topic_id m = topicId) (messages db))
                            else [])
            in Inr (db\<lparr>subscriptions := subscriptions db @ [row],
                        subscription_messages := subscription_messages db @ backfill\<rparr>,
                    \<lparr>subscriptionId = newId, subscriptionName = name, consumptionMode = cm,
                     startPosition = sp, maxAttempts = ma, retryStrategy = rs, retryDelay = rd\<rparr>,
                    False))
         else
           (case filter (\<lambda>s. sub_name s = name) (subscriptions db) of
              [] \<Rightarrow> Inl TypeError
            | existingSub # _ \<Rightarrow>
                Inr (db,
                     \<lparr>subscriptionId = sub_id existingSub, subscriptionName = name,
                      consumptionMode = sub_consumption_mode existingSub,
                      startPosition = sub_start_position existingSub,
                      maxAttempts = sub_max_attempts existingSub,
                      retryStrategy = sub_retry_strategy existingSub,
                      retryDelay = sub_retry_delay existingSub\<rparr>,
                     cm \<noteq> sub_consumption_mode existingSub
                       \<or> sp \<noteq> sub_start_position existingSub
                       \<or> ma \<noteq> sub_max_attempts existingSub
                       \<or> rs \<noteq> sub_retry_strategy existingSub
                       \<or> rd \<noteq> sub_retry_delay existingSub)))"

section \<open>Subscription messages (subscription-message.ts)\<close>

record SubscriptionMessage =
  subscription :: Subscription
  messageId :: uuid
  data :: "json option"
  createdAt :: "timestamp option"
  status :: message_status
  attempts :: int
  availableAt :: "timestamp option"
  errorStack :: "string option"
  lastHeartbeatAt :: "timestamp option"
  messagePriority :: "int option"
  progress :: "json option"
  staleCount :: int

text \<open>
  The candidate query of \<open>getNextMessages\<close>: the rows of this subscription with
  \<open>status = 'waiting' AND (available_at IS NULL OR available_at <= now)\<close>, each joined
  (\<open>LEFT JOIN\<close>) to its message, \<open>ORDER BY priority ASC NULLS LAST, id\<close>. The foreign
  key of \<open>message_id\<close> makes the joined message exist, so the joined \<open>id\<close> is the row's
  \<open>message_id\<close>. \<open>FOR UPDATE ... SKIP LOCKED\<close> skips rows locked by a transaction running
  at the same time; every operation of the model runs alone, so no row is locked.
\<close>

definition reservable :: "uuid \<Rightarrow> timestamp \<Rightarrow> subscription_message_row \<Rightarrow> bool" where
  "reservable sid now r =
     (sm_subscription_id r = sid \<and> sm_status r = Waiting
      \<and> (case sm_available_at r of None \<Rightarrow> True | Some t \<Rightarrow> t \<le> now))"

type_synonym joined_row = "subscription_message_row \<times> message_row option"

definition joined_priority :: "joined_row \<Rightarrow> int option" where
  "joined_priority jr = (case snd jr of None \<Rightarrow> None | Some m \<Rightarrow> msg_priority m)"

definition reservation_key :: "joined_row \<Rightarrow> (nat \<times> int) \<times> uuid" where
  "reservation_key jr =
     ((case joined_priority jr of None \<Rightarrow> (1, 0) | Some p \<Rightarrow> (0, p)),
      sm_message_id (fst jr))"

definition candidates :: "database \<Rightarrow> uuid \<Rightarrow> timestamp \<Rightarrow> joined_row list" where
  "candidates db sid now =
     sort_key reservation_key
       (map (\<lambda>r. (r, find (\<lambda>m. msg_id m = sm_message_id r) (messages db)))
            (filter (reservable sid now) (subscription_messages db)))"

text \<open>The \<open>SubscriptionMessage\<close> built from a selected row by \<open>messages.map(...)\<close>.\<close>

definition reserved_message :: "Subscription \<Rightarrow> timestamp \<Rightarrow> joined_row \<Rightarrow> SubscriptionMessage" where
  "reserved_message this lastHeartbeat jr =
     \<lparr>subscription = this, messageId = sm_message_id (fst jr),
      data = map_option msg_data (snd jr), createdAt = map_option msg_created_at (snd jr),
      status = Processing, attempts = sm_attempts (fst jr) + 1,
      availableAt = sm_available_at (fst jr), errorStack = sm_error_stack (fst jr),
      lastHeartbeatAt = Some lastHeartbeat, messagePriority = joined_priority jr,
      progress = None, staleCount = sm_stale_count (fst jr)\<rparr>"

text \<open>\<open>UPDATE pg_transit_subscriptions SET processing = b WHERE id = sid\<close>.\<close>

definition set_processing :: "database \<Rightarrow> uuid \<Rightarrow> bool \<Rightarrow> database" where
  "set_processing db sid b =
     db\<lparr>subscriptions :=
          map (\<lambda>s. if sub_id s = sid then s\<lparr>sub_processing := b\<rparr> else s) (subscriptions db)\<rparr>"

text \<open>
  \<open>UPDATE pg_transit_subscription_messages SET status = 'processing',
  attempts = attempts + 1, last_heartbeat_at = now, progress = NULL
  WHERE subscription_id = sid AND message_id = ANY (messageIds)\<close>.
\<close>

definition mark_processing :: "database \<Rightarrow> uuid \<Rightarrow> uuid list \<Rightarrow> timestamp \<Rightarrow> database" where
  "mark_processing db sid messageIds now =
     db\<lparr>subscription_messages :=
          map (\<lambda>r. if sm_subscription_id r = sid \<and> sm_message_id r \<in> set messageIds
                    then r\<lparr>sm_status := Processing, sm_attempts := sm_attempts r + 1,
                           sm_last_heartbeat_at := Some now, sm_progress := None\<rparr>
                    else r)
              (subscription_messages db)\<rparr>"

text \<open>
  The sequential gate: \<open>SELECT processing FROM pg_transit_subscriptions WHERE id = sid
  FOR UPDATE\<close>, then \<open>subscription.processing\<close>, a \<open>TypeError\<close> when the row is gone.
\<close>

definition sequential_gate :: "database \<Rightarrow> Subscription \<Rightarrow> error + bool" where
  "sequential_gate db this =
     (if consumptionMode this = Sequential
      then (case filter (\<lambda>s. sub_id s = subscriptionId this) (subscriptions db) of
              [] \<Rightarrow> Inl TypeError
            | s # _ \<Rightarrow> Inr (sub_processing s))
      else Inr False)"

definition reservation_limit :: "Subscription \<Rightarrow> int \<Rightarrow> nat" where
  "reservation_limit this count = (if consumptionMode this = Sequential then 1 else nat count)"

definition getNextMessages ::
  "database \<Rightarrow> Subscription \<Rightarrow> int \<Rightarrow> timestamp
     \<Rightarrow> error + (database \<times> SubscriptionMessage list)" where
  "getNextMessages db this count now =
     (if count \<le> 0 then Inl CountMustBeGreaterThanZero
      else case sequential_gate db this of
             Inl e \<Rightarrow> Inl e
           | Inr True \<Rightarrow> Inr (db, [])
           | Inr False \<Rightarrow>
               (let msgs = take (reservation_limit this count)
                                (candidates db (subscriptionId this) now)
                in if msgs = [] then Inr (db, [])
                   else
                     (let db1 = (if consumptionMode this = Sequential
                                 then set_processing db (subscriptionId this) True else db);
                          messageIds = map (\<lambda>jr. sm_message_id (fst jr)) msgs;
                          db2 = mark_processing db1 (subscriptionId this) messageIds now
                      in Inr (db2, map (reserved_message this now) msgs))))"

text \<open>An \<open>UPDATE\<close> of the one row \<open>(subscription_id, message_id)\<close> of a message object.\<close>

definition update_row ::
  "database \<Rightarrow> SubscriptionMessage \<Rightarrow> (subscription_message_row \<Rightarrow> subscription_message_row)
     \<Rightarrow> database" where
  "update_row db this f =
     db\<lparr>subscription_messages :=
          map (\<lambda>r. if sm_subscription_id r = subscriptionId (subscription this)
                         \<and> sm_message_id r = messageId this
                    then f r else r)
              (subscription_messages db)\<rparr>"

definition completeMessage ::
  "database \<Rightarrow> SubscriptionMessage \<Rightarrow> database \<times> SubscriptionMessage" where
  "completeMessage db this =
     (update_row db this (\<lambda>r. r\<lparr>sm_status := Completed\<rparr>), this\<lparr>status := Completed\<rparr>)"

definition complete :: "database \<Rightarrow> SubscriptionMessage \<Rightarrow> database \<times> SubscriptionMessage" where
  "complete db this =
     (if consumptionMode (subscription this) = Sequential
      then (let (db1, this1) = completeMessage db this
            in (set_processing db1 (subscriptionId (subscription this)) False, this1))
      else completeMessage db this)"

text \<open>
  \<open>new Date(x)\<close> is an invalid \<open>Date\<close> when \<open>x\<close> is \<open>NaN\<close> or beyond \<open>8.64e15\<close>
  milliseconds from the epoch, and otherwise the \<open>Date\<close> of the integral part of \<open>x\<close>
  (truncation towards zero). A \<open>Date\<close> parameter of a query is serialised by the driver
  with \<open>toISOString()\<close>, which throws a \<open>RangeError\<close> on an invalid \<open>Date\<close>: the query is
  not sent.
\<close>

datatype date = Date timestamp | InvalidDate

definition max_time :: int where
  "max_time = 8640000000000000"

definition js_date :: "rat \<Rightarrow> timestamp" where
  "js_date x = (if 0 \<le> x then \<lfloor>x\<rfloor> else \<lceil>x\<rceil>)"

definition new_Date :: "rat \<Rightarrow> date" where
  "new_Date x = (if \<bar>x\<bar> \<le> of_int max_time then Date (js_date x) else InvalidDate)"

definition date_parameter :: "date option \<Rightarrow> error + timestamp option" where
  "date_parameter d =
     (case d of
        None \<Rightarrow> Inr None
      | Some (Date t) \<Rightarrow> Inr (Some t)
      | Some InvalidDate \<Rightarrow> Inl RangeError)"

text \<open>
  The \<open>availableAt\<close> of \<open>failMessage\<close>: \<open>null\<close> unless \<open>attempts < maxAttempts\<close>, then
  \<open>new Date(Date.now() + retryDelay)\<close> or
  \<open>new Date(Date.now() + retryDelay * Math.pow(2, attempts - 1))\<close>.
  JavaScript numbers are doubles. \<open>Math.pow(2, k)\<close> is \<open>Infinity\<close> from \<open>k = 1024\<close> on, and
  then the product is \<open>Infinity\<close>, or \<open>NaN\<close> when \<open>retryDelay\<close> is \<open>0\<close>: the \<open>Date\<close> is
  invalid. Below that the model computes with exact numbers. For a message that has been
  reserved (\<open>attempts \<ge> 1\<close>), a \<open>retryDelay\<close> read from the \<open>INTEGER\<close> column and a clock
  inside the \<open>Date\<close> range this is what the doubles give: the power and the product are
  exact or overflow to \<open>Infinity\<close>, and a sum inside the \<open>Date\<close> range is an integer below
  \<open>2 ^ 53\<close>, which a double holds exactly.
\<close>

definition retry_availableAt :: "SubscriptionMessage \<Rightarrow> timestamp \<Rightarrow> date option" where
  "retry_availableAt this now =
     (if attempts this < maxAttempts (subscription this)
      then (case retryStrategy (subscription this) of
              Linear \<Rightarrow>
                Some (new_Date (of_int now + of_int (retryDelay (subscription this))))
            | Exponential \<Rightarrow>
                Some (if 1024 \<le> attempts this - 1 then InvalidDate
                      else new_Date (of_int now
                             + of_int (retryDelay (subscription this))
                                 * power_int 2 (attempts this - 1))))
      else None)"

text \<open>
  \<open>errStack\<close> is \<open>error.stack\<close>, which may be undefined. The object's fields are assigned
  after the \<open>UPDATE\<close>; when the driver throws, neither the row nor the object changes.
\<close>

definition failMessage ::
  "database \<Rightarrow> SubscriptionMessage \<Rightarrow> string option \<Rightarrow> timestamp
     \<Rightarrow> error + (database \<times> SubscriptionMessage)" where
  "failMessage db this errStack now =
     (let st = (if attempts this \<ge> maxAttempts (subscription this) then Failed else Waiting)
      in case date_parameter (retry_availableAt this now) of
           Inl e \<Rightarrow> Inl e
         | Inr av \<Rightarrow>
             Inr (update_row db this
                    (\<lambda>r. r\<lparr>sm_status := st, sm_available_at := av, sm_error_stack := errStack\<rparr>),
                  this\<lparr>status := st, availableAt := av, errorStack := errStack\<rparr>))"

text \<open>
  In sequential mode \<open>failMessage\<close> and the update of the flag are one transaction, which
  an error rolls back.
\<close>

definition fail ::
  "database \<Rightarrow> SubscriptionMessage \<Rightarrow> string option \<Rightarrow> timestamp
     \<Rightarrow> error + (database \<times> SubscriptionMessage)" where
  "fail db this errStack now =
     (case failMessage db this errStack now of
        Inl e \<Rightarrow> Inl e
      | Inr (db1, this1) \<Rightarrow>
          Inr (if consumptionMode (subscription this) = Sequential
               then set_processing db1 (subscriptionId (subscription this)) False
               else db1,
               this1))"

definition retry :: "database \<Rightarrow> SubscriptionMessage \<Rightarrow> database \<times> SubscriptionMessage" where
  "retry db this =
     (update_row db this
        (\<lambda>r. r\<lparr>sm_status := Waiting, sm_available_at := None, sm_error_stack := None\<rparr>),
      this\<lparr>status := Waiting, availableAt := None, errorStack := None\<rparr>)"

definition heartbeat ::
  "database \<Rightarrow> SubscriptionMessage \<Rightarrow> timestamp \<Rightarrow> database \<times> SubscriptionMessage" where
  "heartbeat db this now =
     (update_row db this (\<lambda>r. r\<lparr>sm_last_heartbeat_at := Some now\<rparr>),
      this\<lparr>lastHeartbeatAt := Some now\<rparr>)"

definition updateProgress ::
  "database \<Rightarrow> SubscriptionMessage \<Rightarrow> json \<Rightarrow> database \<times> SubscriptionMessage" where
  "updateProgress db this v =
     (update_row db this (\<lambda>r. r\<lparr>sm_progress := Some v\<rparr>), this\<lparr>progress := Some v\<rparr>)"

text \<open>
  \<open>Subscription.remove\<close>: \<open>DELETE FROM pg_transit_subscriptions WHERE id = this.id\<close>; the
  rows of the subscription go with it (\<open>ON DELETE CASCADE\<close>).
\<close>

definition remove_subscription :: "database \<Rightarrow> Subscription \<Rightarrow> database" where
  "remove_subscription db this =
     db\<lparr>subscriptions := filter (\<lambda>s. sub_id s \<noteq> subscriptionId this) (subscriptions db),
        subscription_messages :=
          filter (\<lambda>r. sm_subscription_id r \<noteq> subscriptionId this) (subscription_messages db)\<rparr>"

section \<open>Background sweeps (pg-transit.ts) and retention (topic.ts)\<close>

text \<open>
  \<open>resetStaleMessages\<close>: the \<open>UPDATE ... RETURNING message_id, subscription_id\<close> on the
  rows with \<open>status = 'processing' AND last_heartbeat_at <= staleAt\<close> (a \<open>NULL\<close> heartbeat
  does not compare), one \<open>stale\<close> event per returned row, then \<open>processing = FALSE\<close> on the
  subscriptions of the returned rows. The result is the new store, the events emitted,
  as (message id, subscription id), and the count returned.
\<close>

definition is_stale :: "timestamp \<Rightarrow> subscription_message_row \<Rightarrow> bool" where
  "is_stale staleAt r =
     (sm_status r = Processing
      \<and> (case sm_last_heartbeat_at r of None \<Rightarrow> False | Some t \<Rightarrow> t \<le> staleAt))"

definition reset_row :: "subscription_message_row \<Rightarrow> subscription_message_row" where
  "reset_row r =
     r\<lparr>sm_status := (if sm_stale_count r = 0 then Waiting else Failed),
       sm_stale_count := sm_stale_count r + 1,
       sm_last_heartbeat_at := None\<rparr>"

definition resetStaleMessages ::
  "database \<Rightarrow> int \<Rightarrow> timestamp \<Rightarrow> database \<times> (uuid \<times> uuid) list \<times> nat" where
  "resetStaleMessages db staleMessageTimeoutInMs now =
     (let staleAt = now - staleMessageTimeoutInMs;
          rows = map (\<lambda>r. (sm_message_id r, sm_subscription_id r))
                     (filter (is_stale staleAt) (subscription_messages db));
          db1 = db\<lparr>subscription_messages :=
                     map (\<lambda>r. if is_stale staleAt r then reset_row r else r)
                         (subscription_messages db)\<rparr>
      in if rows = [] then (db1, [], 0)
         else
           (let subscriptionIds = remdups (map snd rows);
                db2 = db1\<lparr>subscriptions :=
                           map (\<lambda>s. if sub_id s \<in> set subscriptionIds
                                     then s\<lparr>sub_processing := False\<rparr> else s)
                               (subscriptions db1)\<rparr>
            in (db2, rows, length rows)))"

text \<open>
  \<open>Topic.schedule\<close>: an upsert on the primary key (topic, name). A new schedule is
  inserted with \<open>updated_at = NULL\<close> and \<open>repeats_made = 0\<close>; an existing one takes the new
  data, cron expression, next occurrence, delivery options, priority and repeats, and
  \<open>updated_at\<close>, and keeps \<open>created_at\<close> and \<open>repeats_made\<close>. \<open>cron_next c t\<close> is what the
  cron parser answers for \<open>c\<close> when the clock shows \<open>t\<close>; \<open>now\<close> and \<open>updatedAt\<close> are the two
  readings of the clock. The flag returned is \<open>inserted\<close>.
\<close>

definition schedule ::
  "database \<Rightarrow> (string \<Rightarrow> timestamp \<Rightarrow> timestamp) \<Rightarrow> uuid \<Rightarrow> string \<Rightarrow> string \<Rightarrow> int option
     \<Rightarrow> json \<Rightarrow> MessageOptions \<Rightarrow> timestamp \<Rightarrow> timestamp \<Rightarrow> database \<times> bool" where
  "schedule db cron_next topicId name cron repeats payload options now updatedAt =
     (let nextOccurrenceAt = cron_next cron now;
          row = \<lparr>sched_topic_id = topicId, sched_name = name, sched_data = payload,
                 sched_created_at = now, sched_updated_at = None,
                 sched_next_occurrence_at = nextOccurrenceAt, sched_cron = cron,
                 sched_deliver_in_ms = deliverInMs options, sched_deliver_at = deliverAt options,
                 sched_priority = priority options, sched_repeats = repeats,
                 sched_repeats_made = 0\<rparr>
      in if \<exists>r \<in> set (scheduled_messages db). sched_topic_id r = topicId \<and> sched_name r = name
         then (db\<lparr>scheduled_messages :=
                    map (\<lambda>r. if sched_topic_id r = topicId \<and> sched_name r = name
                              then r\<lparr>sched_data := payload, sched_cron := cron,
                                     sched_next_occurrence_at := nextOccurrenceAt,
                                     sched_deliver_in_ms := deliverInMs options,
                                     sched_deliver_at := deliverAt options,
                                     sched_priority := priority options,
                                     sched_repeats := repeats,
                                     sched_updated_at := Some updatedAt\<rparr>
                              else r)
                        (scheduled_messages db)\<rparr>,
               False)
         else (db\<lparr>scheduled_messages := scheduled_messages db @ [row]\<rparr>, True))"

text \<open>
  \<open>processScheduledMessages\<close>. The cron parser is an external library: \<open>cron_next c t\<close>
  stands for \<open>CronExpressionParser.parse(c).next()\<close> evaluated when the clock shows \<open>t\<close>,
  that is the first occurrence of \<open>c\<close> after \<open>t\<close>. The loop body runs once per selected
  row; each \<open>insertMessages\<close> call draws one identifier.
\<close>

definition is_due :: "timestamp \<Rightarrow> scheduled_message_row \<Rightarrow> bool" where
  "is_due now r =
     (sched_next_occurrence_at r \<le> now
      \<and> (case sched_repeats r of None \<Rightarrow> True | Some k \<Rightarrow> sched_repeats_made r < k))"

definition advance_schedule ::
  "database \<Rightarrow> scheduled_message_row \<Rightarrow> timestamp \<Rightarrow> database" where
  "advance_schedule db row next =
     db\<lparr>scheduled_messages :=
          map (\<lambda>r. if sched_topic_id r = sched_topic_id row \<and> sched_name r = sched_name row
                    then r\<lparr>sched_next_occurrence_at := next,
                           sched_repeats_made := sched_repeats_made r + 1\<rparr>
                    else r)
              (scheduled_messages db)\<rparr>"

definition schedule_options :: "scheduled_message_row \<Rightarrow> MessageOptions" where
  "schedule_options row =
     \<lparr>deliverInMs = sched_deliver_in_ms row, deliverAt = sched_deliver_at row,
      priority = sched_priority row\<rparr>"

fun scheduled_loop ::
  "(string \<Rightarrow> timestamp \<Rightarrow> timestamp) \<Rightarrow> timestamp \<Rightarrow> scheduled_message_row list
     \<Rightarrow> database \<Rightarrow> uuid \<Rightarrow> database \<times> message_row list" where
  "scheduled_loop cron_next now [] db u = (db, [])"
| "scheduled_loop cron_next now (row # rows) db u =
     (let (db1, ms) = insertMessages db u (sched_topic_id row) [sched_data row]
                        (schedule_options row) now;
          db2 = advance_schedule db1 row (cron_next (sched_cron row) now);
          (db3, rest) = scheduled_loop cron_next now rows db2 (u + 1)
      in (db3, take 1 ms @ rest))"

definition processScheduledMessages ::
  "database \<Rightarrow> (string \<Rightarrow> timestamp \<Rightarrow> timestamp) \<Rightarrow> uuid \<Rightarrow> timestamp
     \<Rightarrow> database \<times> message_row list" where
  "processScheduledMessages db cron_next uuid0 now =
     scheduled_loop cron_next now (filter (is_due now) (scheduled_messages db)) db uuid0"

text \<open>
  \<open>Topic.trim\<close>. \<open>maxMessagesRetention\<close> is a number between \<open>0\<close> and \<open>Infinity\<close>.
  Deleting a message deletes the subscription-message rows that reference it
  (\<open>ON DELETE CASCADE\<close>).
\<close>

record Topic =
  topic_id :: uuid
  topic_name :: string
  maxMessagesRetention :: enat

definition earliest_unprocessed :: "database \<Rightarrow> uuid \<Rightarrow> uuid option" where
  "earliest_unprocessed db tid =
     (let subscriptionIds = map sub_id (filter (\<lambda>s. sub_topic_id s = tid) (subscriptions db))
      in if subscriptionIds \<noteq> []
         then (case sort (map sm_message_id
                           (filter (\<lambda>r. sm_subscription_id r \<in> set subscriptionIds
                                         \<and> sm_status r \<noteq> Completed)
                                   (subscription_messages db))) of
                 [] \<Rightarrow> None
               | x # _ \<Rightarrow> Some x)
         else None)"

definition trim_candidates :: "database \<Rightarrow> uuid \<Rightarrow> uuid list" where
  "trim_candidates db tid =
     rev (sort (map msg_id
                 (filter (\<lambda>m. msg_topic_id m = tid
                               \<and> (case earliest_unprocessed db tid of
                                     None \<Rightarrow> True
                                   | Some e \<Rightarrow> msg_id m < e))
                         (messages db))))"

definition delete_messages :: "database \<Rightarrow> (message_row \<Rightarrow> bool) \<Rightarrow> database \<times> nat" where
  "delete_messages db doomed =
     (let gone = map msg_id (filter doomed (messages db))
      in (db\<lparr>messages := filter (\<lambda>m. \<not> doomed m) (messages db),
             subscription_messages :=
               filter (\<lambda>r. sm_message_id r \<notin> set gone) (subscription_messages db)\<rparr>,
          length gone))"

definition trim :: "database \<Rightarrow> Topic \<Rightarrow> database \<times> nat" where
  "trim db this =
     (case maxMessagesRetention this of
        \<infinity> \<Rightarrow> (db, 0)
      | enat n \<Rightarrow>
          (case drop n (trim_candidates db (topic_id this)) of
             [] \<Rightarrow> (db, 0)
           | latestMessageToRemove # _ \<Rightarrow>
               delete_messages db
                 (\<lambda>m. msg_topic_id m = topic_id this \<and> msg_id m \<le> latestMessageToRemove)))"

text \<open>
  \<open>Message.remove\<close>: \<open>DELETE FROM pg_transit_messages WHERE topic_id = topicId AND id = id\<close>.
  \<open>Topic.clear\<close>: the messages of the topic and its schedules are deleted.
  \<open>ScheduledMessage.remove\<close>: the schedule with this topic and name is deleted.
\<close>

definition remove_message :: "database \<Rightarrow> uuid \<Rightarrow> uuid \<Rightarrow> database" where
  "remove_message db topicId messageId' =
     fst (delete_messages db (\<lambda>m. msg_topic_id m = topicId \<and> msg_id m = messageId'))"

definition clear :: "database \<Rightarrow> uuid \<Rightarrow> database" where
  "clear db topicId =
     (let db1 = fst (delete_messages db (\<lambda>m. msg_topic_id m = topicId))
      in db1\<lparr>scheduled_messages :=
               filter (\<lambda>r. sched_topic_id r \<noteq> topicId) (scheduled_messages db1)\<rparr>)"

definition remove_schedule :: "database \<Rightarrow> uuid \<Rightarrow> string \<Rightarrow> database" where
  "remove_schedule db topicId name =
     db\<lparr>scheduled_messages :=
          filter (\<lambda>r. \<not> (sched_topic_id r = topicId \<and> sched_name r = name))
                 (scheduled_messages db)\<rparr>"

section \<open>Notions of the specification\<close>

text \<open>
  The reservation order in the specification's words: priority ascending with \<open>NULL\<close>s
  last, then message id ascending, on pairs (priority, id).
\<close>

fun spec_reserved_before :: "int option \<times> uuid \<Rightarrow> int option \<times> uuid \<Rightarrow> bool" where
  "spec_reserved_before (Some p, i) (Some q, j) = (p < q \<or> (p = q \<and> i \<le> j))"
| "spec_reserved_before (Some p, i) (None, j) = True"
| "spec_reserved_before (None, i) (Some q, j) = False"
| "spec_reserved_before (None, i) (None, j) = (i \<le> j)"

text \<open>
  Successive reservations of one subscription, each given by its count and the time of
  the call, with nothing else touching the store in between; the batches are returned
  one after the other. A subscription has no delays when none of its \<open>waiting\<close> rows has
  an \<open>available_at\<close>.
\<close>

fun reserve_all ::
  "database \<Rightarrow> Subscription \<Rightarrow> (int \<times> timestamp) list
     \<Rightarrow> error + (database \<times> SubscriptionMessage list)" where
  "reserve_all db this [] = Inr (db, [])"
| "reserve_all db this ((count, now) # calls) =
     (case getNextMessages db this count now of
        Inl e \<Rightarrow> Inl e
      | Inr (db1, batch) \<Rightarrow>
          (case reserve_all db1 this calls of
             Inl e \<Rightarrow> Inl e
           | Inr (db2, rest) \<Rightarrow> Inr (db2, batch @ rest)))"

definition no_delays :: "database \<Rightarrow> uuid \<Rightarrow> bool" where
  "no_delays db sid =
     (\<forall>r \<in> set (subscription_messages db).
        sm_subscription_id r = sid \<and> sm_status r = Waiting \<longrightarrow> sm_available_at r = None)"



text \<open>
  A row is unacknowledged for a topic when it belongs to one of the topic's subscriptions
  and is not \<open>completed\<close>. The acknowledged messages below the earliest unacknowledged id
  are the topic's messages whose id is smaller than the message id of every such row (all
  of the topic's messages when there is none, in particular when the topic has no
  subscription).
\<close>

definition unacknowledged_row :: "database \<Rightarrow> uuid \<Rightarrow> subscription_message_row \<Rightarrow> bool" where
  "unacknowledged_row db tid r =
     ((\<exists>s \<in> set (subscriptions db). sub_topic_id s = tid \<and> sub_id s = sm_subscription_id r)
      \<and> sm_status r \<noteq> Completed)"

definition spec_acknowledged_below :: "database \<Rightarrow> uuid \<Rightarrow> message_row list" where
  "spec_acknowledged_below db tid =
     filter (\<lambda>m. msg_topic_id m = tid
                  \<and> (\<forall>r \<in> set (subscription_messages db).
                        unacknowledged_row db tid r \<longrightarrow> msg_id m < sm_message_id r))
            (messages db)"

text \<open>
  A schedule is identified by its primary key (topic, name). What one scheduler run does
  to a due row and the message it sends for it; the number of times a schedule is
  selected as due over a sequence of scheduler runs, each given by the identifier the
  generator yields first and the time of the run.
\<close>

definition schedule_key :: "scheduled_message_row \<Rightarrow> uuid \<times> string" where
  "schedule_key r = (sched_topic_id r, sched_name r)"




section \<open>The broker as a transition system\<close>

text \<open>
  Every operation above is one transaction (or one statement) and runs alone. A state of
  the running broker is the store, and an event is one call of a public operation, by
  an application, a consumer or a background loop; \<open>step\<close> is what the call does to the
  store. An operation that throws writes nothing and is no step. Every call can be made
  at any time and on any object: \<open>complete\<close>, \<open>fail\<close>, \<open>retry\<close>, \<open>heartbeat\<close> and
  \<open>updateProgress\<close> check nothing.

  Two components of the state are not in the database. \<open>next_id\<close> stands for the
  generator \<open>v7()\<close>, which yields identifiers in increasing order: an identifier drawn is
  at least \<open>next_id\<close>. \<open>in_flight\<close> records the reservations that are still current: the
  message objects returned by \<open>getNextMessages\<close> whose row has not since been concluded
  by \<open>complete\<close> or \<open>fail\<close>, retried, or re-opened by the stale sweep. It is kept to say
  who calls: no operation reads it. A message object stands for itself as the
  reservation returned it; its identifier, subscription and attempts never change, and no
  operation reads its other fields.
\<close>

record system =
  store :: database
  in_flight :: "SubscriptionMessage list"
  next_id :: uuid

definition initial_system :: system where
  "initial_system = \<lparr>store = empty_database, in_flight = [], next_id = 0\<rparr>"

datatype event =
  Subscribe uuid uuid string SubscriptionOptions timestamp
| Unsubscribe Subscription
| Send uuid uuid "json list" MessageOptions timestamp
| Reserve Subscription int timestamp
| Complete SubscriptionMessage
| Fail SubscriptionMessage "string option" timestamp
| Retry SubscriptionMessage
| Heartbeat SubscriptionMessage timestamp
| UpdateProgress SubscriptionMessage json
| ResetStale int timestamp
| Trim Topic
| Remove uuid uuid
| Clear uuid
| Schedule "string \<Rightarrow> timestamp \<Rightarrow> timestamp" uuid string string "int option" json
    MessageOptions timestamp timestamp
| Unschedule uuid string
| Tick "string \<Rightarrow> timestamp \<Rightarrow> timestamp" uuid timestamp

text \<open>The \<open>Subscription\<close> object whose fields were read from a row of the table.\<close>

definition subscription_object :: "subscription_row \<Rightarrow> Subscription" where
  "subscription_object row =
     \<lparr>subscriptionId = sub_id row, subscriptionName = sub_name row,
      consumptionMode = sub_consumption_mode row, startPosition = sub_start_position row,
      maxAttempts = sub_max_attempts row, retryStrategy = sub_retry_strategy row,
      retryDelay = sub_retry_delay row\<rparr>"

definition message_key :: "SubscriptionMessage \<Rightarrow> uuid \<times> uuid" where
  "message_key m = (subscriptionId (subscription m), messageId m)"

definition row_key :: "subscription_message_row \<Rightarrow> uuid \<times> uuid" where
  "row_key r = (sm_subscription_id r, sm_message_id r)"

text \<open>
  A \<open>Subscription\<close> object is built by the constructor from the row it inserts or reads,
  and a row is never updated but for its \<open>processing\<close> flag: while the row exists, the
  object shows its fields.
\<close>

definition known_subscription :: "database \<Rightarrow> Subscription \<Rightarrow> bool" where
  "known_subscription db this =
     (\<forall>row \<in> set (subscriptions db).
        sub_id row = subscriptionId this \<longrightarrow> this = subscription_object row)"

definition concluded :: "SubscriptionMessage \<Rightarrow> SubscriptionMessage list \<Rightarrow> SubscriptionMessage list" where
  "concluded m held = filter (\<lambda>x. message_key x \<noteq> message_key m) held"

fun step :: "system \<Rightarrow> event \<Rightarrow> system option" where
  "step s (Subscribe newId topicId name options now) =
     (if next_id s \<le> newId
      then (case subscribe (store s) newId topicId name options now of
              Inl e \<Rightarrow> None
            | Inr (db', this, mismatch) \<Rightarrow> Some (s\<lparr>store := db', next_id := newId + 1\<rparr>))
      else None)"
| "step s (Unsubscribe this) = Some (s\<lparr>store := remove_subscription (store s) this\<rparr>)"
| "step s (Send uuid0 topicId payloads options now) =
     (if next_id s \<le> uuid0
      then Some (s\<lparr>store := fst (insertMessages (store s) uuid0 topicId payloads options now),
                   next_id := uuid0 + length payloads\<rparr>)
      else None)"
| "step s (Reserve this count now) =
     (if known_subscription (store s) this
      then (case getNextMessages (store s) this count now of
              Inl e \<Rightarrow> None
            | Inr (db', batch) \<Rightarrow> Some (s\<lparr>store := db', in_flight := in_flight s @ batch\<rparr>))
      else None)"
| "step s (Complete m) =
     Some (s\<lparr>store := fst (complete (store s) m), in_flight := concluded m (in_flight s)\<rparr>)"
| "step s (Fail m errStack now) =
     (case fail (store s) m errStack now of
        Inl e \<Rightarrow> None
      | Inr (db', m') \<Rightarrow> Some (s\<lparr>store := db', in_flight := concluded m (in_flight s)\<rparr>))"
| "step s (Retry m) =
     Some (s\<lparr>store := fst (retry (store s) m), in_flight := concluded m (in_flight s)\<rparr>)"
| "step s (Heartbeat m now) = Some (s\<lparr>store := fst (heartbeat (store s) m now)\<rparr>)"
| "step s (UpdateProgress m v) = Some (s\<lparr>store := fst (updateProgress (store s) m v)\<rparr>)"
| "step s (ResetStale staleMessageTimeoutInMs now) =
     (let (db', rows, n) = resetStaleMessages (store s) staleMessageTimeoutInMs now
      in Some (s\<lparr>store := db',
                  in_flight :=
                    filter (\<lambda>m. (messageId m, subscriptionId (subscription m)) \<notin> set rows)
                           (in_flight s)\<rparr>))"
| "step s (Trim topic) = Some (s\<lparr>store := fst (trim (store s) topic)\<rparr>)"
| "step s (Remove topicId messageId') =
     Some (s\<lparr>store := remove_message (store s) topicId messageId'\<rparr>)"
| "step s (Clear topicId) = Some (s\<lparr>store := clear (store s) topicId\<rparr>)"
| "step s (Schedule cron_next topicId name cron repeats payload options now updatedAt) =
     Some (s\<lparr>store := fst (schedule (store s) cron_next topicId name cron repeats payload
                                     options now updatedAt)\<rparr>)"
| "step s (Unschedule topicId name) =
     Some (s\<lparr>store := remove_schedule (store s) topicId name\<rparr>)"
| "step s (Tick cron_next uuid0 now) =
     (if next_id s \<le> uuid0
      then Some (s\<lparr>store := fst (processScheduledMessages (store s) cron_next uuid0 now),
                   next_id := uuid0 + length (filter (is_due now)
                                                     (scheduled_messages (store s)))\<rparr>)
      else None)"

fun run :: "system \<Rightarrow> event list \<Rightarrow> system option" where
  "run s [] = Some s"
| "run s (e # es) = (case step s e of None \<Rightarrow> None | Some s' \<Rightarrow> run s' es)"



definition processing_rows :: "database \<Rightarrow> uuid \<Rightarrow> subscription_message_row list" where
  "processing_rows db sid =
     filter (\<lambda>r. sm_subscription_id r = sid \<and> sm_status r = Processing)
            (subscription_messages db)"

section \<open>Example stores\<close>

text \<open>
  A topic \<open>0\<close> with a sequential subscription \<open>log\<close> (id 1) and a parallel subscription
  \<open>jobs\<close> (id 2), two messages, and four rows: two with a heartbeat that lapsed long ago
  (one never re-opened before, one re-opened once), one with a recent heartbeat, and one
  still waiting.
\<close>

definition log_row :: subscription_row where
  "log_row =
     \<lparr>sub_id = 1, sub_topic_id = 0, sub_name = ''log'', sub_created_at = 0,
      sub_processing = True, sub_consumption_mode = Sequential, sub_start_position = Latest,
      sub_max_attempts = 1, sub_retry_strategy = Linear, sub_retry_delay = 0\<rparr>"

definition jobs_row :: subscription_row where
  "jobs_row =
     \<lparr>sub_id = 2, sub_topic_id = 0, sub_name = ''jobs'', sub_created_at = 0,
      sub_processing = False, sub_consumption_mode = Parallel, sub_start_position = Latest,
      sub_max_attempts = 3, sub_retry_strategy = Exponential, sub_retry_delay = 10000\<rparr>"

definition example_message :: "uuid \<Rightarrow> int option \<Rightarrow> message_row" where
  "example_message i p =
     \<lparr>msg_id = i, msg_topic_id = 0, msg_data = ''{}'', msg_created_at = 0,
      msg_deliver_at = None, msg_priority = p\<rparr>"

definition in_progress :: "uuid \<Rightarrow> uuid \<Rightarrow> int \<Rightarrow> timestamp \<Rightarrow> int \<Rightarrow> subscription_message_row" where
  "in_progress sid mid n beat stale =
     \<lparr>sm_subscription_id = sid, sm_message_id = mid, sm_status = Processing, sm_attempts = n,
      sm_available_at = None, sm_error_stack = None, sm_last_heartbeat_at = Some beat,
      sm_progress = None, sm_stale_count = stale\<rparr>"

definition stale_store :: database where
  "stale_store =
     \<lparr>messages = [example_message 10 None, example_message 11 None],
      scheduled_messages = [],
      subscriptions = [log_row, jobs_row],
      subscription_messages =
        [in_progress 1 10 1 1000 0, in_progress 2 10 2 2000 1, in_progress 2 11 1 99000 0,
         new_subscription_message 1 11 None]\<rparr>"






text \<open>
  The subscription \<open>jobs\<close> with five rows: message 10 without priority, 11 with priority
  5, 12 with priority 1, 13 with priority 0 but not available before time 9999, and 14
  with priority 0, already completed.
\<close>

definition priority_store :: database where
  "priority_store =
     \<lparr>messages = [example_message 10 None, example_message 11 (Some 5),
                  example_message 12 (Some 1), example_message 13 (Some 0),
                  example_message 14 (Some 0)],
      scheduled_messages = [],
      subscriptions = [log_row, jobs_row],
      subscription_messages =
        [new_subscription_message 2 10 None, new_subscription_message 2 11 None,
         new_subscription_message 2 12 None, new_subscription_message 2 13 (Some 9999),
         (new_subscription_message 2 14 None)\<lparr>sm_status := Completed, sm_attempts := 1\<rparr>,
         new_subscription_message 1 10 None]\<rparr>"

text \<open>
  The subscription \<open>jobs\<close> with a backlog of three messages, none delayed: message 10
  without priority, 11 with priority 5 and 12 with priority 1.
\<close>

definition backlog_store :: database where
  "backlog_store =
     \<lparr>messages = [example_message 10 None, example_message 11 (Some 5),
                  example_message 12 (Some 1)],
      scheduled_messages = [],
      subscriptions = [log_row, jobs_row],
      subscription_messages =
        [new_subscription_message 2 10 None, new_subscription_message 2 11 None,
         new_subscription_message 2 12 None]\<rparr>"

text \<open>
  Topic \<open>0\<close> with the subscriptions \<open>log\<close> and \<open>jobs\<close> and one earlier message, and a
  subscription \<open>audit\<close> (id 3) of another topic \<open>7\<close>.
\<close>

definition audit_row :: subscription_row where
  "audit_row =
     \<lparr>sub_id = 3, sub_topic_id = 7, sub_name = ''audit'', sub_created_at = 0,
      sub_processing = False, sub_consumption_mode = Parallel, sub_start_position = Latest,
      sub_max_attempts = 1, sub_retry_strategy = Linear, sub_retry_delay = 0\<rparr>"


text \<open>
  Topic \<open>0\<close> keeps one acknowledged message. Its subscription \<open>log\<close> has completed the
  messages 10 and 11 and not yet 12; message 5 belongs to another topic.
\<close>

definition orders_topic :: Topic where
  "orders_topic = \<lparr>topic_id = 0, topic_name = ''orders'', maxMessagesRetention = 1\<rparr>"

definition retention_store :: database where
  "retention_store =
     \<lparr>messages = [(example_message 5 None)\<lparr>msg_topic_id := 7\<rparr>, example_message 10 None,
                  example_message 11 None, example_message 12 None],
      scheduled_messages = [],
      subscriptions = [log_row\<lparr>sub_processing := False\<rparr>],
      subscription_messages =
        [(new_subscription_message 1 10 None)\<lparr>sm_status := Completed, sm_attempts := 1\<rparr>,
         (new_subscription_message 1 11 None)\<lparr>sm_status := Completed, sm_attempts := 1\<rparr>,
         new_subscription_message 1 12 None]\<rparr>"



text \<open>
  Topic \<open>0\<close> with the subscription \<open>jobs\<close> and one message, sent at time 1000 to be
  delivered at time 5000: the fan-out row of \<open>jobs\<close> carries that time.
\<close>

definition delayed_store :: database where
  "delayed_store =
     \<lparr>messages = [(example_message 20 None)\<lparr>msg_created_at := 1000,
                                             msg_deliver_at := Some 5000\<rparr>],
      scheduled_messages = [],
      subscriptions = [jobs_row],
      subscription_messages = [new_subscription_message 2 20 (Some 5000)]\<rparr>"

text \<open>
  Topic \<open>0\<close> with the subscription \<open>jobs\<close> and no message yet, and the options of a send
  that delays delivery by 4000 ms: sent at time 1000 with identifier 20, it yields
  \<open>delayed_store\<close>.
\<close>

definition quiet_store :: database where
  "quiet_store =
     \<lparr>messages = [], scheduled_messages = [], subscriptions = [jobs_row],
      subscription_messages = []\<rparr>"

definition delay_options :: MessageOptions where
  "delay_options = \<lparr>deliverInMs = Some 4000, deliverAt = None, priority = None\<rparr>"

definition replay_options :: SubscriptionOptions where
  "replay_options =
     \<lparr>optConsumptionMode = Some Parallel, optStartPosition = Some Earliest,
      optMaxAttempts = None, optRetryStrategy = None, optRetryDelayInMs = None\<rparr>"

text \<open>
  Two topics with a subscription of the same name: \<open>audit\<close> of topic \<open>7\<close> (id 3, parallel)
  was created first, \<open>audit\<close> of topic \<open>0\<close> (id 5) is created with the default options.
\<close>

definition default_subscription_options :: SubscriptionOptions where
  "default_subscription_options =
     \<lparr>optConsumptionMode = None, optStartPosition = None, optMaxAttempts = None,
      optRetryStrategy = None, optRetryDelayInMs = None\<rparr>"

definition other_topic_store :: database where
  "other_topic_store =
     \<lparr>messages = [], scheduled_messages = [], subscriptions = [audit_row],
      subscription_messages = []\<rparr>"

definition orders_audit_row :: subscription_row where
  "orders_audit_row =
     \<lparr>sub_id = 5, sub_topic_id = 0, sub_name = ''audit'', sub_created_at = 10,
      sub_processing = False, sub_consumption_mode = Sequential, sub_start_position = Latest,
      sub_max_attempts = 1, sub_retry_strategy = Linear, sub_retry_delay = 0\<rparr>"

definition same_name_store :: database where
  "same_name_store = other_topic_store\<lparr>subscriptions := [audit_row, orders_audit_row]\<rparr>"

section \<open>Invariants of the transition system\<close>







section \<open>Example runs\<close>

text \<open>
  A run of one sequential subscription \<open>log\<close> (id 1, default options) of topic \<open>0\<close> with
  three messages 10, 11 and 12. \<open>delivery mid n stale beat\<close> is the message object that a
  reservation at time \<open>beat\<close> returns for message \<open>mid\<close> on its \<open>n\<close>-th attempt.

  In \<open>orderly_trace\<close> the first delivery of message 10 sends no heartbeat and is
  re-opened by the stale sweep at time 100000; the message is delivered again and
  completed, and message 11 is reserved. In \<open>late_completion_trace\<close> the handler of the
  first delivery then returns and its consumer calls \<open>complete()\<close> on the object it
  holds, as \<open>Consumer.processMessage\<close> does after every handler; the next poll reserves
  message 12.
\<close>

definition delivery :: "uuid \<Rightarrow> int \<Rightarrow> int \<Rightarrow> timestamp \<Rightarrow> SubscriptionMessage" where
  "delivery mid n stale beat =
     \<lparr>subscription = subscription_object log_row, messageId = mid, data = Some ''{}'',
      createdAt = Some 0, status = Processing, attempts = n, availableAt = None,
      errorStack = None, lastHeartbeatAt = Some beat, messagePriority = None,
      progress = None, staleCount = stale\<rparr>"

definition orderly_trace :: "event list" where
  "orderly_trace =
     [Subscribe 1 0 ''log'' default_subscription_options 0,
      Send 10 0 [''{}'', ''{}'', ''{}''] no_options 0,
      Reserve (subscription_object log_row) 1 1000,
      ResetStale 60000 100000,
      Reserve (subscription_object log_row) 1 100001,
      Complete (delivery 10 2 1 100001),
      Reserve (subscription_object log_row) 1 100002]"

definition late_completion_trace :: "event list" where
  "late_completion_trace =
     orderly_trace @
     [Complete (delivery 10 1 0 1000),
      Reserve (subscription_object log_row) 1 100003]"









text \<open>
  What a run leaves in the tables: for every subscription its id, consumption mode,
  \<open>max_attempts\<close> and \<open>processing\<close> flag, and for every row its key, status, \<open>attempts\<close>
  and \<open>stale_count\<close>; and the messages of a subscription whose rows are \<open>processing\<close>.
\<close>

definition snapshot ::
  "system \<Rightarrow> (uuid \<times> consumption_mode \<times> int \<times> bool) list
             \<times> (uuid \<times> uuid \<times> message_status \<times> int \<times> int) list" where
  "snapshot s =
     (map (\<lambda>x. (sub_id x, sub_consumption_mode x, sub_max_attempts x, sub_processing x))
          (subscriptions (store s)),
      map (\<lambda>r. (sm_subscription_id r, sm_message_id r, sm_status r, sm_attempts r,
                 sm_stale_count r))
          (subscription_messages (store s)))"

definition outcome ::
  "event list \<Rightarrow> ((uuid \<times> consumption_mode \<times> int \<times> bool) list
                   \<times> (uuid \<times> uuid \<times> message_status \<times> int \<times> int) list) option" where
  "outcome es = map_option snapshot (run initial_system es)"

definition processing_after :: "event list \<Rightarrow> uuid \<Rightarrow> uuid list option" where
  "processing_after es sid =
     map_option (\<lambda>s. map sm_message_id (processing_rows (store s) sid)) (run initial_system es)"

section \<open>Properties of the code\<close>

subsection \<open>The stale detector\<close>

lemma resetStaleMessages_tables:
  "resetStaleMessages db timeout now = (db', events, n) \<Longrightarrow>
     subscription_messages db' =
       map (\<lambda>r. if is_stale (now - timeout) r then reset_row r else r) (subscription_messages db)
     \<and> events = map (\<lambda>r. (sm_message_id r, sm_subscription_id r))
                   (filter (is_stale (now - timeout)) (subscription_messages db))
     \<and> n = length events
     \<and> subscriptions db' =
         map (\<lambda>s. if sub_id s \<in> snd ` set events then s\<lparr>sub_processing := False\<rparr> else s)
             (subscriptions db)
     \<and> messages db' = messages db \<and> scheduled_messages db' = scheduled_messages db"
  by (auto simp: resetStaleMessages_def Let_def image_image split: if_splits)

text \<open>
  Claim C8. One call of \<open>resetStaleMessages\<close> rewrites exactly the rows that are
  \<open>processing\<close> with a heartbeat at or before \<open>now - timeout\<close>: the status becomes
  \<open>waiting\<close> when \<open>stale_count\<close> is \<open>0\<close> and \<open>failed\<close> otherwise, \<open>stale_count\<close> grows by
  one and the heartbeat is cleared; every other row is left as it is. The \<open>processing\<close>
  flag is cleared on the subscriptions of the rewritten rows and on no other, one \<open>stale\<close>
  event is emitted per rewritten row, and the count returned is their number.
\<close>

theorem resetStaleMessages_sweep:
  assumes "resetStaleMessages db timeout now = (db', events, n)"
  shows "subscription_messages db' =
           map (\<lambda>r. if sm_status r = Processing
                        \<and> (\<exists>t. sm_last_heartbeat_at r = Some t \<and> t \<le> now - timeout)
                     then r\<lparr>sm_status := (if sm_stale_count r = 0 then Waiting else Failed),
                            sm_stale_count := sm_stale_count r + 1,
                            sm_last_heartbeat_at := None\<rparr>
                     else r)
               (subscription_messages db)
         \<and> subscriptions db' =
             map (\<lambda>s. if \<exists>r \<in> set (subscription_messages db).
                            sm_subscription_id r = sub_id s \<and> sm_status r = Processing
                            \<and> (\<exists>t. sm_last_heartbeat_at r = Some t \<and> t \<le> now - timeout)
                       then s\<lparr>sub_processing := False\<rparr> else s)
                 (subscriptions db)
         \<and> events =
             map (\<lambda>r. (sm_message_id r, sm_subscription_id r))
                 (filter (\<lambda>r. sm_status r = Processing
                               \<and> (\<exists>t. sm_last_heartbeat_at r = Some t \<and> t \<le> now - timeout))
                         (subscription_messages db))
         \<and> n = length events
         \<and> messages db' = messages db
         \<and> scheduled_messages db' = scheduled_messages db"
proof -
  have st: "is_stale (now - timeout) =
              (\<lambda>r. sm_status r = Processing
                    \<and> (\<exists>t. sm_last_heartbeat_at r = Some t \<and> t \<le> now - timeout))"
    by (auto simp: is_stale_def fun_eq_iff split: option.splits)
  have rr: "reset_row = (\<lambda>r. r\<lparr>sm_status := (if sm_stale_count r = 0 then Waiting else Failed),
                            sm_stale_count := sm_stale_count r + 1,
                            sm_last_heartbeat_at := None\<rparr>)"
    by (simp add: reset_row_def fun_eq_iff)
  note t = resetStaleMessages_tables [OF assms]
  have subs: "\<And>s. (sub_id s \<in> snd ` set events) =
                 (\<exists>r \<in> set (subscription_messages db).
                    sm_subscription_id r = sub_id s \<and> is_stale (now - timeout) r)"
    using t by (auto simp: image_iff)
  show ?thesis
    using t unfolding subs unfolding st rr by simp
qed

theorem resetStaleMessages_sweep_witness:
  "resetStaleMessages stale_store 60000 100000 =
     (stale_store\<lparr>subscriptions := [log_row\<lparr>sub_processing := False\<rparr>, jobs_row],
        subscription_messages :=
          [(in_progress 1 10 1 1000 0)\<lparr>sm_status := Waiting, sm_stale_count := 1,
                                       sm_last_heartbeat_at := None\<rparr>,
           (in_progress 2 10 2 2000 1)\<lparr>sm_status := Failed, sm_stale_count := 2,
                                       sm_last_heartbeat_at := None\<rparr>,
           in_progress 2 11 1 99000 0, new_subscription_message 1 11 None]\<rparr>,
      [(10, 1), (10, 2)], 2)
   \<and> map sm_status
        (subscription_messages (fst (resetStaleMessages stale_store 60000 100000)))
       = [Waiting, Failed, Processing, Waiting]
   \<and> map sub_processing (subscriptions (fst (resetStaleMessages stale_store 60000 100000)))
       = [False, False]"
proof -
  obtain db' events n where r: "resetStaleMessages stale_store 60000 100000 = (db', events, n)"
    by (cases "resetStaleMessages stale_store 60000 100000")
  from resetStaleMessages_sweep [OF r] show ?thesis
    unfolding r
    by (simp add: stale_store_def in_progress_def new_subscription_message_def
                  log_row_def jobs_row_def)
qed

subsection \<open>Failure and the retry delay\<close>

lemma js_date_of_int [simp]: "js_date (of_int i) = i"
  by (simp add: js_date_def)







subsection \<open>Reservation order\<close>

lemma reservation_key_le:
  "(reservation_key a \<le> reservation_key b) =
     spec_reserved_before (joined_priority a, sm_message_id (fst a))
                          (joined_priority b, sm_message_id (fst b))"
  by (cases "joined_priority a"; cases "joined_priority b")
     (auto simp: reservation_key_def less_eq_prod_def less_prod_def)

lemma candidates_sorted:
  "sorted_wrt (\<lambda>a b. spec_reserved_before (joined_priority a, sm_message_id (fst a))
                                            (joined_priority b, sm_message_id (fst b)))
              (candidates db sid now)"
proof -
  have "sorted (map reservation_key (candidates db sid now))"
    unfolding candidates_def by (rule sorted_sort_key)
  then show ?thesis
    by (simp add: sorted_map reservation_key_le)
qed

lemma candidates_rows:
  "set (map fst (candidates db sid now)) =
     {r \<in> set (subscription_messages db). reservable sid now r}
   \<and> length (candidates db sid now) =
       length (filter (reservable sid now) (subscription_messages db))"
  by (auto simp: candidates_def image_iff)

lemma candidates_joined:
  "jr \<in> set (candidates db sid now) \<Longrightarrow>
     snd jr = find (\<lambda>m. msg_id m = sm_message_id (fst jr)) (messages db)"
  by (auto simp: candidates_def)

lemma getNextMessages_batch:
  assumes "getNextMessages db this count now = Inr (db', batch)"
  shows "batch = map (reserved_message this now)
                     (take (length batch) (candidates db (subscriptionId this) now))
         \<and> length batch \<le> reservation_limit this count
         \<and> (sequential_gate db this = Inr False \<longrightarrow>
              length batch = min (reservation_limit this count)
                                 (length (candidates db (subscriptionId this) now)))"
  using assms
  by (auto simp: getNextMessages_def Let_def min_def
           split: if_splits sum.splits bool.splits)

lemma getNextMessages_store:
  assumes "getNextMessages db this count now = Inr (db', batch)"
  shows "subscription_messages db' =
           map (\<lambda>r. if sm_subscription_id r = subscriptionId this
                          \<and> sm_message_id r \<in> messageId ` set batch
                     then r\<lparr>sm_status := Processing, sm_attempts := sm_attempts r + 1,
                            sm_last_heartbeat_at := Some now, sm_progress := None\<rparr>
                     else r)
               (subscription_messages db)
         \<and> subscriptions db' =
             (if consumptionMode this = Sequential \<and> batch \<noteq> []
              then map (\<lambda>s. if sub_id s = subscriptionId this
                             then s\<lparr>sub_processing := True\<rparr> else s) (subscriptions db)
              else subscriptions db)
         \<and> messages db' = messages db
         \<and> scheduled_messages db' = scheduled_messages db"
proof (cases "batch = []")
  case True
  then have "db' = db"
    using assms
    by (auto simp: getNextMessages_def Let_def split: if_splits sum.splits bool.splits)
  with True show ?thesis
    by (simp add: map_idI)
next
  case False
  let ?msgs = "take (reservation_limit this count) (candidates db (subscriptionId this) now)"
  have b: "batch = map (reserved_message this now) ?msgs"
    and d: "db' = mark_processing
                    (if consumptionMode this = Sequential
                     then set_processing db (subscriptionId this) True else db)
                    (subscriptionId this) (map (\<lambda>jr. sm_message_id (fst jr)) ?msgs) now"
    using assms False
    by (auto simp: getNextMessages_def Let_def split: if_splits sum.splits bool.splits)
  have ids: "set (map (\<lambda>jr. sm_message_id (fst jr)) ?msgs) = messageId ` set batch"
    unfolding b by (simp add: image_image reserved_message_def)
  show ?thesis
    using False unfolding d
    by (simp add: mark_processing_def set_processing_def ids del: set_map)
qed

lemma reserved_rows_leave:
  assumes sm': "subscription_messages db' =
           map (\<lambda>r. if sm_subscription_id r = sid \<and> sm_message_id r \<in> ids
                     then r\<lparr>sm_status := Processing, sm_attempts := sm_attempts r + 1,
                            sm_last_heartbeat_at := Some now, sm_progress := None\<rparr>
                     else r)
               (subscription_messages db)"
    and msgs: "messages db' = messages db"
  shows "candidates db' sid t =
           filter (\<lambda>jr. sm_message_id (fst jr) \<notin> ids) (candidates db sid t)"
proof -
  let ?P = "\<lambda>r. sm_subscription_id r = sid \<and> sm_message_id r \<in> ids"
  let ?g = "\<lambda>r. if ?P r
                 then r\<lparr>sm_status := Processing, sm_attempts := sm_attempts r + 1,
                        sm_last_heartbeat_at := Some now, sm_progress := None\<rparr>
                 else r"
  let ?J = "\<lambda>r. (r, find (\<lambda>m. msg_id m = sm_message_id r) (messages db))"
  have r: "reservable sid t (?g r) = (reservable sid t r \<and> sm_message_id r \<notin> ids)" for r
    by (auto simp: reservable_def)
  have "filter (reservable sid t) (map ?g (subscription_messages db))
          = map ?g (filter (\<lambda>r. reservable sid t r \<and> sm_message_id r \<notin> ids)
                           (subscription_messages db))"
    by (simp only: filter_map comp_def r)
  also have "\<dots> = filter (\<lambda>r. reservable sid t r \<and> sm_message_id r \<notin> ids)
                       (subscription_messages db)"
    by (rule map_idI) auto
  also have "\<dots> = filter (\<lambda>r. sm_message_id r \<notin> ids)
                       (filter (reservable sid t) (subscription_messages db))"
    by (simp add: conj_commute)
  finally have f: "filter (reservable sid t) (subscription_messages db')
          = filter (\<lambda>r. sm_message_id r \<notin> ids)
                   (filter (reservable sid t) (subscription_messages db))"
    by (simp only: sm')
  have "map ?J (filter (\<lambda>r. sm_message_id r \<notin> ids)
                       (filter (reservable sid t) (subscription_messages db)))
          = filter (\<lambda>jr. sm_message_id (fst jr) \<notin> ids)
                   (map ?J (filter (reservable sid t) (subscription_messages db)))"
    by (simp only: filter_map comp_def fst_conv)
  then show ?thesis
    unfolding candidates_def msgs f by (simp only: filter_sort)
qed

lemma filter_keys_of_prefix:
  assumes "distinct (map f xs)"
  shows "filter (\<lambda>x. f x \<notin> f ` set (take n xs)) xs = drop n xs"
proof -
  have d: "distinct (map f (take n xs) @ map f (drop n xs))"
    using assms by (simp only: map_append [symmetric] append_take_drop_id)
  have "filter (\<lambda>x. f x \<notin> f ` set (take n xs)) (take n xs) = []"
    by (simp add: filter_empty_conv)
  moreover have "filter (\<lambda>x. f x \<notin> f ` set (take n xs)) (drop n xs) = drop n xs"
    using d by (auto simp: filter_id_conv)
  ultimately have "filter (\<lambda>x. f x \<notin> f ` set (take n xs)) (take n xs @ drop n xs)
                     = drop n xs"
    by (simp only: filter_append append_Nil)
  then show ?thesis
    by (simp only: append_take_drop_id)
qed

lemma candidates_message_ids:
  assumes "distinct (map row_key (subscription_messages db))"
  shows "distinct (map (\<lambda>jr. sm_message_id (fst jr)) (candidates db sid now))"
proof -
  let ?ys = "map (\<lambda>r. (r, find (\<lambda>m. msg_id m = sm_message_id r) (messages db)))
                 (filter (reservable sid now) (subscription_messages db))"
  have "distinct (map row_key (filter (reservable sid now) (subscription_messages db)))"
    using assms by (rule distinct_map_filter)
  then have "distinct (filter (reservable sid now) (subscription_messages db))"
    and "inj_on row_key (set (filter (reservable sid now) (subscription_messages db)))"
    by (simp_all only: distinct_map)
  then have "distinct (map sm_message_id
                        (filter (reservable sid now) (subscription_messages db)))"
    by (auto simp: distinct_map inj_on_def row_key_def reservable_def)
  then have "distinct (map (\<lambda>jr. sm_message_id (fst jr)) ?ys)"
    by (simp add: comp_def)
  then have "distinct ?ys \<and> inj_on (\<lambda>jr. sm_message_id (fst jr)) (set ?ys)"
    by (simp only: distinct_map)
  then have "distinct (sort_key reservation_key ?ys)
             \<and> inj_on (\<lambda>jr. sm_message_id (fst jr)) (set (sort_key reservation_key ?ys))"
    by simp
  then show ?thesis
    unfolding candidates_def by (simp only: distinct_map)
qed

lemma batch_ids:
  assumes "getNextMessages db this count now = Inr (db', batch)"
  shows "map messageId batch =
           take (length batch)
                (map (\<lambda>jr. sm_message_id (fst jr)) (candidates db (subscriptionId this) now))"
proof -
  have "map messageId batch =
          map messageId (map (reserved_message this now)
                   (take (length batch) (candidates db (subscriptionId this) now)))"
    using getNextMessages_batch [OF assms] by simp
  then show ?thesis
    by (simp add: comp_def reserved_message_def take_map)
qed

lemma reserved_prefix_leaves:
  assumes keys: "distinct (map row_key (subscription_messages db))"
    and call: "getNextMessages db this count now = Inr (db', batch)"
  shows "candidates db' (subscriptionId this) now =
           drop (length batch) (candidates db (subscriptionId this) now)"
proof -
  let ?c = "candidates db (subscriptionId this) now"
  note t = getNextMessages_store [OF call]
  have "messageId ` set batch = (\<lambda>jr. sm_message_id (fst jr)) ` set (take (length batch) ?c)"
    using batch_ids [OF call] by (metis set_map take_map)
  moreover have "candidates db' (subscriptionId this) now =
          filter (\<lambda>jr. sm_message_id (fst jr) \<notin> messageId ` set batch) ?c"
    by (rule reserved_rows_leave [where now = now]) (use t in simp_all)
  ultimately show ?thesis
    using filter_keys_of_prefix [OF candidates_message_ids [OF keys], of "length batch"
                                   "subscriptionId this" now]
    by simp
qed

lemma candidates_no_delays:
  assumes "no_delays db sid"
  shows "candidates db sid t = candidates db sid t'"
proof -
  have "filter (reservable sid t) (subscription_messages db)
          = filter (reservable sid t') (subscription_messages db)"
    using assms by (intro filter_cong) (auto simp: no_delays_def reservable_def)
  then show ?thesis
    by (simp add: candidates_def)
qed

lemma reserve_all_order:
  assumes par: "consumptionMode this = Parallel"
  shows "distinct (map row_key (subscription_messages db)) \<Longrightarrow>
         no_delays db (subscriptionId this) \<Longrightarrow>
         reserve_all db this calls = Inr (dbn, batches) \<Longrightarrow>
           map messageId batches =
             take (length batches)
                  (map (\<lambda>jr. sm_message_id (fst jr)) (candidates db (subscriptionId this) t))
           \<and> length batches =
               min (sum_list (map (\<lambda>c. nat (fst c)) calls))
                   (length (candidates db (subscriptionId this) t))"
proof (induction calls arbitrary: db dbn batches)
  case Nil
  then show ?case by simp
next
  case (Cons c calls)
  obtain count now where c: "c = (count, now)"
    by (cases c)
  from Cons.prems(3) obtain db1 batch rest where
    call: "getNextMessages db this count now = Inr (db1, batch)"
    and more: "reserve_all db1 this calls = Inr (dbn, rest)"
    and all: "batches = batch @ rest"
    unfolding c by (auto split: sum.splits)
  let ?sid = "subscriptionId this"
  let ?ids = "\<lambda>db t. map (\<lambda>jr. sm_message_id (fst jr)) (candidates db ?sid t)"
  have same: "candidates db ?sid now = candidates db ?sid t"
    using Cons.prems(2) by (rule candidates_no_delays)
  note st = getNextMessages_store [OF call]
  have keys1: "distinct (map row_key (subscription_messages db1))"
  proof -
    have "map row_key (subscription_messages db1) = map row_key (subscription_messages db)"
      using st by (simp add: comp_def row_key_def if_distrib [of row_key] cong: if_cong)
    with Cons.prems(1) show ?thesis by simp
  qed
  have nd1: "no_delays db1 ?sid"
    unfolding no_delays_def
  proof (intro ballI impI)
    fix r assume r: "r \<in> set (subscription_messages db1)"
      and w: "sm_subscription_id r = ?sid \<and> sm_status r = Waiting"
    from r st obtain r0 where r0: "r0 \<in> set (subscription_messages db)"
      and e: "r = (if sm_subscription_id r0 = ?sid \<and> sm_message_id r0 \<in> messageId ` set batch
                   then r0\<lparr>sm_status := Processing, sm_attempts := sm_attempts r0 + 1,
                           sm_last_heartbeat_at := Some now, sm_progress := None\<rparr>
                   else r0)"
      by auto
    from e w have "r = r0"
      by (auto split: if_splits)
    with r0 w Cons.prems(2) show "sm_available_at r = None"
      by (simp add: no_delays_def)
  qed
  have left: "candidates db1 ?sid t = drop (length batch) (candidates db ?sid t)"
  proof -
    have "candidates db1 ?sid t = candidates db1 ?sid now"
      using nd1 by (rule candidates_no_delays)
    also have "\<dots> = drop (length batch) (candidates db ?sid now)"
      using Cons.prems(1) call by (rule reserved_prefix_leaves)
    finally show ?thesis
      by (simp only: same)
  qed
  from Cons.IH [OF keys1 nd1 more]
  have ih: "map messageId rest = take (length rest) (?ids db1 t)"
    and ihl: "length rest = min (sum_list (map (\<lambda>c. nat (fst c)) calls))
                                (length (candidates db1 ?sid t))"
    by simp_all
  have b: "map messageId batch = take (length batch) (?ids db t)"
    using batch_ids [OF call] by (simp only: same)
  have bl: "length batch = min (nat count) (length (candidates db ?sid t))"
    using getNextMessages_batch [OF call] par
    by (simp add: sequential_gate_def reservation_limit_def same)
  have "map messageId batches =
          take (length batch) (?ids db t)
          @ take (length rest) (drop (length batch) (?ids db t))"
    unfolding all using b ih by (simp add: left drop_map)
  also have "\<dots> = take (length batch + length rest) (?ids db t)"
    by (simp only: take_add)
  finally have order: "map messageId batches = take (length batches) (?ids db t)"
    by (simp add: all)
  have "length batches = min (sum_list (map (\<lambda>c. nat (fst c)) (c # calls)))
                             (length (candidates db ?sid t))"
  proof -
    define L where "L = length (candidates db ?sid t)"
    define S where "S = sum_list (map (\<lambda>c. nat (fst c)) calls)"
    have "length batch = min (nat count) L" "length rest = min S (L - length batch)"
      using bl ihl by (simp_all add: L_def S_def left)
    then have "length batch + length rest = min (nat count + S) L"
      by arith
    then show ?thesis
      by (simp add: all c L_def S_def)
  qed
  with order show ?case by simp
qed

text \<open>
  Claim C2. The candidates of a reservation are exactly the rows of the subscription that
  are \<open>waiting\<close> and whose \<open>available_at\<close> is \<open>NULL\<close> or not after \<open>now\<close>, each with the
  message it references, and \<open>candidates\<close> lists them in the order of the specification.
  A call that returns hands out a prefix of that list, as message objects: nothing when
  the flag of a sequential subscription is raised, otherwise as many as there are, up to
  one in sequential mode and up to \<open>count\<close> in parallel mode. Exactly the rows handed out
  are marked \<open>processing\<close>, with one more attempt and a fresh heartbeat; a sequential
  subscription that handed out a message has its flag raised. The rows handed out leave
  the candidates and the others keep their order: under the primary key the candidates
  after the call are the candidates before it without the prefix. Hence successive
  reservations of a parallel subscription without delays return the candidates in their
  order.
\<close>

theorem getNextMessages_priority_order:
  assumes "getNextMessages db this count now = Inr (db', batch)"
  shows "set (map fst (candidates db (subscriptionId this) now)) =
           {r \<in> set (subscription_messages db).
              sm_subscription_id r = subscriptionId this \<and> sm_status r = Waiting
              \<and> (sm_available_at r = None \<or> (\<exists>t. sm_available_at r = Some t \<and> t \<le> now))}
         \<and> length (candidates db (subscriptionId this) now) =
             length (filter (\<lambda>r. sm_subscription_id r = subscriptionId this
                                  \<and> sm_status r = Waiting
                                  \<and> (sm_available_at r = None
                                      \<or> (\<exists>t. sm_available_at r = Some t \<and> t \<le> now)))
                            (subscription_messages db))
         \<and> (\<forall>jr \<in> set (candidates db (subscriptionId this) now).
               joined_priority jr =
                 (case find (\<lambda>m. msg_id m = sm_message_id (fst jr)) (messages db) of
                    None \<Rightarrow> None | Some m \<Rightarrow> msg_priority m))
         \<and> sorted_wrt (\<lambda>a b. spec_reserved_before (joined_priority a, sm_message_id (fst a))
                                                   (joined_priority b, sm_message_id (fst b)))
                       (candidates db (subscriptionId this) now)
         \<and> batch = map (reserved_message this now)
                        (take (length batch) (candidates db (subscriptionId this) now))
         \<and> map messageId batch =
             take (length batch)
                  (map (\<lambda>jr. sm_message_id (fst jr)) (candidates db (subscriptionId this) now))
         \<and> length batch =
             (if sequential_gate db this = Inr True then 0
              else min (if consumptionMode this = Sequential then 1 else nat count)
                       (length (candidates db (subscriptionId this) now)))
         \<and> subscription_messages db' =
             map (\<lambda>r. if sm_subscription_id r = subscriptionId this
                            \<and> sm_message_id r \<in> messageId ` set batch
                       then r\<lparr>sm_status := Processing, sm_attempts := sm_attempts r + 1,
                              sm_last_heartbeat_at := Some now, sm_progress := None\<rparr>
                       else r)
                 (subscription_messages db)
         \<and> subscriptions db' =
             (if consumptionMode this = Sequential \<and> batch \<noteq> []
              then map (\<lambda>s. if sub_id s = subscriptionId this
                             then s\<lparr>sub_processing := True\<rparr> else s) (subscriptions db)
              else subscriptions db)
         \<and> messages db' = messages db
         \<and> (\<forall>t. candidates db' (subscriptionId this) t =
                   filter (\<lambda>jr. sm_message_id (fst jr) \<notin> messageId ` set batch)
                          (candidates db (subscriptionId this) t))
         \<and> (distinct (map row_key (subscription_messages db)) \<longrightarrow>
              candidates db' (subscriptionId this) now =
                drop (length batch) (candidates db (subscriptionId this) now))
         \<and> (\<forall>calls dbn batches t.
               consumptionMode this = Parallel
               \<and> distinct (map row_key (subscription_messages db))
               \<and> no_delays db (subscriptionId this)
               \<and> reserve_all db this calls = Inr (dbn, batches) \<longrightarrow>
                 map messageId batches =
                   take (length batches)
                        (map (\<lambda>jr. sm_message_id (fst jr))
                             (candidates db (subscriptionId this) t))
                 \<and> length batches =
                     min (sum_list (map (\<lambda>c. nat (fst c)) calls))
                         (length (candidates db (subscriptionId this) t)))"
proof -
  have w: "reservable (subscriptionId this) now =
             (\<lambda>r. sm_subscription_id r = subscriptionId this \<and> sm_status r = Waiting
                   \<and> (sm_available_at r = None \<or> (\<exists>t. sm_available_at r = Some t \<and> t \<le> now)))"
    by (auto simp: reservable_def fun_eq_iff split: option.splits)
  note b = getNextMessages_batch [OF assms]
  note st = getNextMessages_store [OF assms]
  have rows: "set (map fst (candidates db (subscriptionId this) now)) =
           {r \<in> set (subscription_messages db).
              sm_subscription_id r = subscriptionId this \<and> sm_status r = Waiting
              \<and> (sm_available_at r = None \<or> (\<exists>t. sm_available_at r = Some t \<and> t \<le> now))}
         \<and> length (candidates db (subscriptionId this) now) =
             length (filter (\<lambda>r. sm_subscription_id r = subscriptionId this
                                  \<and> sm_status r = Waiting
                                  \<and> (sm_available_at r = None
                                      \<or> (\<exists>t. sm_available_at r = Some t \<and> t \<le> now)))
                            (subscription_messages db))"
    using candidates_rows [of db "subscriptionId this" now] unfolding w by simp
  have pri: "\<forall>jr \<in> set (candidates db (subscriptionId this) now).
               joined_priority jr =
                 (case find (\<lambda>m. msg_id m = sm_message_id (fst jr)) (messages db) of
                    None \<Rightarrow> None | Some m \<Rightarrow> msg_priority m)"
    by (simp add: joined_priority_def candidates_joined)
  have len: "length batch =
             (if sequential_gate db this = Inr True then 0
              else min (if consumptionMode this = Sequential then 1 else nat count)
                       (length (candidates db (subscriptionId this) now)))"
  proof (cases "sequential_gate db this = Inr True")
    case True
    then have "batch = []"
      using assms by (auto simp: getNextMessages_def split: if_splits)
    with True show ?thesis by simp
  next
    case False
    then have "sequential_gate db this = Inr False"
      using assms by (auto simp: getNextMessages_def split: if_splits sum.splits)
    with b False show ?thesis
      by (simp add: reservation_limit_def)
  qed
  have leave: "candidates db' (subscriptionId this) t =
                   filter (\<lambda>jr. sm_message_id (fst jr) \<notin> messageId ` set batch)
                          (candidates db (subscriptionId this) t)" for t
    by (rule reserved_rows_leave [where now = now]) (use st in simp_all)
  have prefix: "candidates db' (subscriptionId this) now =
                drop (length batch) (candidates db (subscriptionId this) now)"
    if "distinct (map row_key (subscription_messages db))"
    using that assms by (rule reserved_prefix_leaves)
  have successive: "map messageId batches =
                   take (length batches)
                        (map (\<lambda>jr. sm_message_id (fst jr))
                             (candidates db (subscriptionId this) t))
                 \<and> length batches =
                     min (sum_list (map (\<lambda>c. nat (fst c)) calls))
                         (length (candidates db (subscriptionId this) t))"
    if "consumptionMode this = Parallel
               \<and> distinct (map row_key (subscription_messages db))
               \<and> no_delays db (subscriptionId this)
               \<and> reserve_all db this calls = Inr (dbn, batches)" for calls dbn batches t
    using that by (intro reserve_all_order) simp_all
  from rows pri candidates_sorted [of db "subscriptionId this" now] b batch_ids [OF assms]
       len st leave prefix successive
  show ?thesis
    by (intro conjI allI impI) (simp_all only:, blast+)
qed

theorem getNextMessages_priority_order_witness:
  "map (\<lambda>jr. sm_message_id (fst jr)) (candidates priority_store 2 100) = [12, 11, 10]
   \<and> map_sum id (\<lambda>p. map messageId (snd p))
             (getNextMessages priority_store (subscription_object jobs_row) 2 100)
       = Inr [12, 11]
   \<and> map_sum id (\<lambda>p. map (\<lambda>jr. sm_message_id (fst jr)) (candidates (fst p) 2 100))
             (getNextMessages priority_store (subscription_object jobs_row) 2 100)
       = Inr [10]
   \<and> map_sum id (\<lambda>p. map messageId (snd p))
             (reserve_all backlog_store (subscription_object jobs_row) [(2, 100), (2, 200)])
       = Inr [12, 11, 10]"
proof -
  let ?jobs = "subscription_object jobs_row"
  have sid: "subscriptionId ?jobs = 2" and par: "consumptionMode ?jobs = Parallel"
    by (simp_all add: subscription_object_def jobs_row_def)
  have c: "map (\<lambda>jr. sm_message_id (fst jr)) (candidates priority_store 2 100) = [12, 11, 10]"
    by code_simp
  have cb: "map (\<lambda>jr. sm_message_id (fst jr)) (candidates backlog_store 2 300) = [12, 11, 10]"
    by code_simp
  have keys: "distinct (map row_key (subscription_messages priority_store))"
    by code_simp
  have keysb: "distinct (map row_key (subscription_messages backlog_store))"
    by code_simp
  have nd: "no_delays backlog_store 2"
    by code_simp
  have gate: "sequential_gate priority_store ?jobs \<noteq> Inr True"
    by (simp add: sequential_gate_def par)
  have "\<not> isl (getNextMessages priority_store ?jobs 2 100)"
    by code_simp
  then obtain db2 b2 where r2: "getNextMessages priority_store ?jobs 2 100 = Inr (db2, b2)"
    by (cases "getNextMessages priority_store ?jobs 2 100") auto
  have "\<not> isl (getNextMessages backlog_store ?jobs 1 50)"
    by code_simp
  then obtain db3 b3 where r3: "getNextMessages backlog_store ?jobs 1 50 = Inr (db3, b3)"
    by (cases "getNextMessages backlog_store ?jobs 1 50") auto
  have "\<not> isl (reserve_all backlog_store ?jobs [(2, 100), (2, 200)])"
    by code_simp
  then obtain dbn batches where
    r4: "reserve_all backlog_store ?jobs [(2, 100), (2, 200)] = Inr (dbn, batches)"
    by (cases "reserve_all backlog_store ?jobs [(2, 100), (2, 200)]") auto
  note t2 = getNextMessages_priority_order [OF r2, unfolded sid]
  from t2 have ids: "map messageId b2 =
      take (length b2) (map (\<lambda>jr. sm_message_id (fst jr)) (candidates priority_store 2 100))"
    by (elim conjE)
  from t2 have len: "length b2 =
             (if sequential_gate priority_store ?jobs = Inr True then 0
              else min (if consumptionMode ?jobs = Sequential then 1 else nat 2)
                       (length (candidates priority_store 2 100)))"
    by (elim conjE)
  from t2 have left: "distinct (map row_key (subscription_messages priority_store)) \<longrightarrow>
              candidates db2 2 100 = drop (length b2) (candidates priority_store 2 100)"
    by (elim conjE)
  have l: "length (candidates priority_store 2 100) = 3"
    using c by (auto dest: arg_cong [where f = length])
  from len gate par l have l2: "length b2 = 2"
    by simp
  from ids l2 c have m2: "map messageId b2 = [12, 11]"
    by simp
  from left keys l2 have "map (\<lambda>jr. sm_message_id (fst jr)) (candidates db2 2 100)
                            = drop 2 (map (\<lambda>jr. sm_message_id (fst jr))
                                          (candidates priority_store 2 100))"
    by (simp add: drop_map)
  with c have c2: "map (\<lambda>jr. sm_message_id (fst jr)) (candidates db2 2 100) = [10]"
    by simp
  from getNextMessages_priority_order [OF r3, unfolded sid]
  have "\<forall>calls dbn batches t.
               consumptionMode ?jobs = Parallel
               \<and> distinct (map row_key (subscription_messages backlog_store))
               \<and> no_delays backlog_store 2
               \<and> reserve_all backlog_store ?jobs calls = Inr (dbn, batches) \<longrightarrow>
                 map messageId batches =
                   take (length batches)
                        (map (\<lambda>jr. sm_message_id (fst jr)) (candidates backlog_store 2 t))
                 \<and> length batches =
                     min (sum_list (map (\<lambda>c. nat (fst c)) calls))
                         (length (candidates backlog_store 2 t))"
    by (elim conjE)
  with par keysb nd r4
  have "map messageId batches =
          take (length batches)
               (map (\<lambda>jr. sm_message_id (fst jr)) (candidates backlog_store 2 300))
        \<and> length batches =
            min (sum_list (map (\<lambda>c. nat (fst c)) [(2::int, 100::timestamp), (2, 200)]))
                (length (candidates backlog_store 2 300))"
    by blast
  moreover have "length (candidates backlog_store 2 300) = 3"
    using cb by (auto dest: arg_cong [where f = length])
  ultimately have m4: "map messageId batches = [12, 11, 10]"
    using cb by simp
  show ?thesis
    unfolding r2 r4 using c m2 c2 m4 by simp
qed


subsection \<open>The message writer\<close>

lemma insert_rows_ids:
  "map msg_id (insert_rows uuid0 tid payloads options now)
     = [uuid0 ..< uuid0 + length payloads]"
  by (simp add: insert_rows_def map_idI comp_def case_prod_unfold map_fst_zip del: upt_Suc)

lemma insert_rows_fields:
  "m \<in> set (insert_rows uuid0 tid payloads options now) \<Longrightarrow>
     msg_topic_id m = tid \<and> msg_deliver_at m = insert_deliverAt options now
     \<and> msg_priority m = priority options \<and> msg_created_at m = now
     \<and> msg_id m \<in> {uuid0 ..< uuid0 + length payloads}"
  by (auto simp: insert_rows_def dest: set_zip_leftD)


lemma fan_out_fresh:
  assumes "\<forall>m \<in> set old. msg_id m \<notin> set ids"
    and "\<forall>m \<in> set rows. msg_topic_id m = tid \<and> msg_id m \<in> set ids"
  shows "fan_out subs (old @ rows) tid ids avail =
           concat (map (\<lambda>s. map (\<lambda>m. new_subscription_message (sub_id s) (msg_id m) avail) rows)
                       (filter (\<lambda>s. sub_topic_id s = tid) subs))"
proof -
  have "filter (\<lambda>m. msg_topic_id m = tid \<and> msg_id m \<in> set ids) (old @ rows) = rows"
    using assms by (auto simp: filter_empty_conv filter_id_conv)
  then show ?thesis
    by (simp add: fan_out_def)
qed




subsection \<open>Retention\<close>

lemma sort_hd_least:
  "sort xs = x # ys \<Longrightarrow> x \<in> set xs \<and> (\<forall>y \<in> set xs. x \<le> y)"
proof -
  assume a: "sort xs = x # ys"
  have "sorted (x # ys)" using a sorted_sort [of xs] by simp
  moreover have "set (x # ys) = set xs" using a set_sort [of "\<lambda>x. x" xs] by simp
  ultimately show ?thesis by auto
qed

lemma sort_Nil_iff: "(sort xs = []) = (xs = [])"
  using length_sort [of "\<lambda>x. x" xs] by (metis length_0_conv)

lemma unacknowledged_ids:
  "set (map sm_message_id
         (filter (\<lambda>r. sm_subscription_id r
                         \<in> set (map sub_id (filter (\<lambda>s. sub_topic_id s = tid) (subscriptions db)))
                       \<and> sm_status r \<noteq> Completed)
                 (subscription_messages db)))
     = sm_message_id ` {r \<in> set (subscription_messages db). unacknowledged_row db tid r}"
proof -
  have "\<And>r. (sm_subscription_id r
                 \<in> set (map sub_id (filter (\<lambda>s. sub_topic_id s = tid) (subscriptions db)))
               \<and> sm_status r \<noteq> Completed) = unacknowledged_row db tid r"
    unfolding unacknowledged_row_def by force
  then show ?thesis by simp
qed

lemma earliest_unprocessed_bound:
  "(case earliest_unprocessed db tid of None \<Rightarrow> True | Some e \<Rightarrow> i < e) =
     (\<forall>r \<in> set (subscription_messages db). unacknowledged_row db tid r \<longrightarrow> i < sm_message_id r)"
proof -
  let ?sids = "map sub_id (filter (\<lambda>s. sub_topic_id s = tid) (subscriptions db))"
  let ?ids = "map sm_message_id
                (filter (\<lambda>r. sm_subscription_id r \<in> set ?sids \<and> sm_status r \<noteq> Completed)
                        (subscription_messages db))"
  have ids: "set ?ids = sm_message_id ` {r \<in> set (subscription_messages db). unacknowledged_row db tid r}"
    by (rule unacknowledged_ids)
  have e: "earliest_unprocessed db tid =
             (if ?sids \<noteq> [] then (case sort ?ids of [] \<Rightarrow> None | x # _ \<Rightarrow> Some x) else None)"
    by (simp add: earliest_unprocessed_def Let_def)
  show ?thesis
  proof (cases "sort ?ids")
    case Nil
    then have "?ids = []" by (simp only: sort_Nil_iff)
    then have "set ?ids = {}" by (simp only: set_empty)
    with ids have "\<forall>r \<in> set (subscription_messages db). \<not> unacknowledged_row db tid r"
      by auto
    moreover have "earliest_unprocessed db tid = None"
      unfolding e using Nil by simp
    ultimately show ?thesis by simp
  next
    case (Cons x ys)
    have ne: "?sids \<noteq> []"
    proof
      assume "?sids = []"
      then have "?ids = []" by simp
      with Cons show False by simp
    qed
    have ev: "earliest_unprocessed db tid = Some x"
      unfolding e using Cons ne by simp
    from sort_hd_least [OF Cons] have "x \<in> set ?ids" and "\<forall>y \<in> set ?ids. x \<le> y" by auto
    then show ?thesis
      unfolding ev ids by (auto simp: image_iff)
  qed
qed

lemma trim_candidates_spec:
  "trim_candidates db tid = rev (sort (map msg_id (spec_acknowledged_below db tid)))"
  by (simp add: trim_candidates_def spec_acknowledged_below_def earliest_unprocessed_bound)

lemma trim_candidates_descending:
  assumes "distinct (map msg_id (messages db))"
  shows "sorted_wrt (\<lambda>a b. b < a) (trim_candidates db tid)"
proof -
  have "distinct (map msg_id (spec_acknowledged_below db tid))"
    unfolding spec_acknowledged_below_def using assms by (rule distinct_map_filter)
  then have "sorted_wrt (<) (sort (map msg_id (spec_acknowledged_below db tid)))"
    by (simp add: strict_sorted_iff)
  then show ?thesis
    by (simp add: trim_candidates_spec sorted_wrt_rev)
qed

lemma trim_candidates_set:
  "set (trim_candidates db tid) = msg_id ` set (spec_acknowledged_below db tid)"
  by (simp add: trim_candidates_spec)

lemma trim_unfold:
  "trim db this =
     (case maxMessagesRetention this of
        \<infinity> \<Rightarrow> (db, 0)
      | enat k \<Rightarrow>
          (case drop k (trim_candidates db (topic_id this)) of
             [] \<Rightarrow> (db, 0)
           | l # _ \<Rightarrow>
               (db\<lparr>messages := filter (\<lambda>m. \<not> (msg_topic_id m = topic_id this \<and> msg_id m \<le> l))
                                      (messages db),
                   subscription_messages :=
                     filter (\<lambda>r. sm_message_id r \<notin>
                                   msg_id ` {m \<in> set (messages db).
                                              msg_topic_id m = topic_id this \<and> msg_id m \<le> l})
                            (subscription_messages db)\<rparr>,
                length (filter (\<lambda>m. msg_topic_id m = topic_id this \<and> msg_id m \<le> l)
                               (messages db)))))"
  by (simp add: trim_def delete_messages_def Let_def split: enat.splits list.splits)

lemma trim_deletes_below:
  assumes "trim db this = (db', n)" and "m \<in> set (messages db)" and "m \<notin> set (messages db')"
  shows "\<exists>k l. maxMessagesRetention this = enat k
               \<and> l \<in> set (drop k (trim_candidates db (topic_id this)))
               \<and> msg_topic_id m = topic_id this \<and> msg_id m \<le> l"
  using assms unfolding trim_unfold
  by (auto split: enat.splits list.splits)

text \<open>
  Claim C5. The hypotheses are the constraints of the schema: message ids are a primary
  key, and a row that references a message of the topic belongs to a subscription of the
  topic. After \<open>trim\<close>: no message that some non-\<open>completed\<close> row references has been
  deleted; for a finite retention \<open>k\<close>, the \<open>k\<close> largest ids among the acknowledged
  messages below the earliest unacknowledged id are still stored, so at least \<open>k\<close> of
  these messages, or all of them when they are fewer, are kept; with an infinite
  retention nothing changes and the count is \<open>0\<close>. The count is the number of messages
  deleted.
\<close>

theorem trim_retention_safety:
  assumes pk: "distinct (map msg_id (messages db))"
    and fk: "\<forall>r \<in> set (subscription_messages db). \<forall>m \<in> set (messages db).
               sm_message_id r = msg_id m \<and> msg_topic_id m = topic_id this \<longrightarrow>
               (\<exists>s \<in> set (subscriptions db).
                  sub_id s = sm_subscription_id r \<and> sub_topic_id s = topic_id this)"
    and tr: "trim db this = (db', n)"
  shows "(\<forall>m \<in> set (messages db).
            (\<exists>r \<in> set (subscription_messages db).
               sm_message_id r = msg_id m \<and> sm_status r \<noteq> Completed)
            \<longrightarrow> m \<in> set (messages db'))
         \<and> (\<forall>k. maxMessagesRetention this = enat k \<longrightarrow>
               set (take k (rev (sort (map msg_id (spec_acknowledged_below db (topic_id this))))))
                 \<subseteq> msg_id ` set (messages db')
               \<and> min k (length (spec_acknowledged_below db (topic_id this)))
                   \<le> length (filter (\<lambda>m. m \<in> set (messages db'))
                                     (spec_acknowledged_below db (topic_id this))))
         \<and> (maxMessagesRetention this = \<infinity> \<longrightarrow> db' = db \<and> n = 0)
         \<and> set (messages db') \<subseteq> set (messages db)
         \<and> n = length (messages db) - length (messages db')"
proof -
  let ?T = "topic_id this"
  let ?C = "trim_candidates db ?T"
  let ?A = "spec_acknowledged_below db ?T"
  have safe: "m \<in> set (messages db')"
    if m: "m \<in> set (messages db)"
      and r: "r \<in> set (subscription_messages db)" "sm_message_id r = msg_id m"
             "sm_status r \<noteq> Completed" for m r
  proof (rule ccontr)
    assume "m \<notin> set (messages db')"
    from trim_deletes_below [OF tr m this] obtain k l where
      l: "l \<in> set (drop k ?C)" and t: "msg_topic_id m = ?T" and le: "msg_id m \<le> l"
      by blast
    from l have "l \<in> set ?C" by (rule in_set_dropD)
    then obtain m' where m': "m' \<in> set ?A" "msg_id m' = l"
      unfolding trim_candidates_set by auto
    from fk r m t have "unacknowledged_row db ?T r"
      unfolding unacknowledged_row_def by force
    with m' r have "l < msg_id m"
      unfolding spec_acknowledged_below_def by auto
    with le show False by simp
  qed
  have sub: "set (messages db') \<subseteq> set (messages db)"
    using tr unfolding trim_unfold by (auto split: enat.splits list.splits)
  have keep: "set (take k ?C) \<subseteq> msg_id ` set (messages db')"
    if k: "maxMessagesRetention this = enat k" for k
  proof (cases "drop k ?C")
    case Nil
    then have "db' = db" using tr k unfolding trim_unfold by simp
    moreover have "set (take k ?C) \<subseteq> set ?C" by (rule set_take_subset)
    ultimately show ?thesis
      unfolding trim_candidates_set spec_acknowledged_below_def by auto
  next
    case (Cons l rest)
    have msgs: "messages db' =
                  filter (\<lambda>m. \<not> (msg_topic_id m = ?T \<and> msg_id m \<le> l)) (messages db)"
      using tr k Cons unfolding trim_unfold by auto
    have "sorted_wrt (\<lambda>a b. b < a) (take k ?C @ drop k ?C)"
      using trim_candidates_descending [OF pk] by simp
    then have gt: "\<forall>x \<in> set (take k ?C). l < x"
      unfolding sorted_wrt_append Cons by auto
    show ?thesis
    proof
      fix x assume x: "x \<in> set (take k ?C)"
      then have "x \<in> set ?C" by (rule in_set_takeD)
      then obtain m where m: "m \<in> set (messages db)" "msg_id m = x"
        unfolding trim_candidates_set spec_acknowledged_below_def by auto
      with gt x have "m \<in> set (messages db')"
        unfolding msgs by auto
      with m show "x \<in> msg_id ` set (messages db')" by auto
    qed
  qed
  have many: "min k (length ?A) \<le> length (filter (\<lambda>m. m \<in> set (messages db')) ?A)"
    if k: "maxMessagesRetention this = enat k" for k
  proof -
    let ?K = "filter (\<lambda>m. m \<in> set (messages db')) ?A"
    have dA: "distinct (map msg_id ?A)"
      unfolding spec_acknowledged_below_def using pk by (rule distinct_map_filter)
    then have dC: "distinct ?C"
      by (simp add: trim_candidates_spec)
    have lC: "length ?C = length ?A"
      by (simp add: trim_candidates_spec)
    have "set (take k ?C) \<subseteq> msg_id ` set ?K"
    proof
      fix x assume x: "x \<in> set (take k ?C)"
      then have "x \<in> set ?C" by (rule in_set_takeD)
      then obtain a where a: "a \<in> set ?A" "msg_id a = x"
        unfolding trim_candidates_set by auto
      from keep [OF k] x obtain m where m: "m \<in> set (messages db')" "msg_id m = x"
        by auto
      have "a \<in> set (messages db)"
        using a unfolding spec_acknowledged_below_def by simp
      moreover have "m \<in> set (messages db)" using m sub by auto
      ultimately have "a = m"
        using pk a m by (auto simp: distinct_map dest: inj_onD)
      with a m show "x \<in> msg_id ` set ?K" by auto
    qed
    then have "card (set (take k ?C)) \<le> card (msg_id ` set ?K)"
      by (intro card_mono) simp_all
    also have "\<dots> \<le> card (set ?K)" by (rule card_image_le) simp
    also have "\<dots> \<le> length ?K" by (rule card_length)
    finally have "card (set (take k ?C)) \<le> length ?K" .
    moreover have "card (set (take k ?C)) = min k (length ?A)"
      using dC lC by (simp add: distinct_card min_def)
    ultimately show ?thesis by simp
  qed
  have inf: "db' = db \<and> n = 0" if "maxMessagesRetention this = \<infinity>"
    using tr that unfolding trim_unfold by simp
  have cnt: "n = length (messages db) - length (messages db')"
  proof (cases "maxMessagesRetention this")
    case infinity
    then show ?thesis using tr unfolding trim_unfold by simp
  next
    case (enat k)
    show ?thesis
    proof (cases "drop k ?C")
      case Nil
      then show ?thesis using tr enat unfolding trim_unfold by simp
    next
      case (Cons l rest)
      let ?P = "\<lambda>m. msg_topic_id m = ?T \<and> msg_id m \<le> l"
      have "n = length (filter ?P (messages db))"
        and "messages db' = filter (\<lambda>m. \<not> ?P m) (messages db)"
        using tr enat Cons unfolding trim_unfold by auto
      then show ?thesis
        using sum_length_filter_compl [of ?P "messages db"] by simp
    qed
  qed
  show ?thesis
    using safe keep many inf sub cnt unfolding trim_candidates_spec by blast
qed

theorem trim_retention_safety_witness:
  "map msg_id (messages retention_store) = [5, 10, 11, 12]
   \<and> map msg_id (spec_acknowledged_below retention_store 0) = [10, 11]
   \<and> map msg_id (messages (fst (trim retention_store orders_topic))) = [5, 11, 12]
   \<and> map sm_message_id (subscription_messages (fst (trim retention_store orders_topic)))
       = [11, 12]
   \<and> snd (trim retention_store orders_topic) = 1"
proof -
  have pk: "distinct (map msg_id (messages retention_store))"
    by (simp add: retention_store_def example_message_def)
  have fk: "\<forall>r \<in> set (subscription_messages retention_store).
              \<forall>m \<in> set (messages retention_store).
                sm_message_id r = msg_id m \<and> msg_topic_id m = topic_id orders_topic \<longrightarrow>
                (\<exists>s \<in> set (subscriptions retention_store).
                   sub_id s = sm_subscription_id r \<and> sub_topic_id s = topic_id orders_topic)"
    by (simp add: retention_store_def example_message_def new_subscription_message_def
                  log_row_def orders_topic_def)
  have ack: "map msg_id (spec_acknowledged_below retention_store 0) = [10, 11]"
    by (simp add: spec_acknowledged_below_def unacknowledged_row_def retention_store_def
                  example_message_def new_subscription_message_def log_row_def)
  obtain db' n where r: "trim retention_store orders_topic = (db', n)"
    by (cases "trim retention_store orders_topic")
  have ids: "map msg_id (messages db') = [5, 11, 12]"
    and rows: "map sm_message_id (subscription_messages db') = [11, 12]"
    using r
    by (auto simp: trim_def delete_messages_def trim_candidates_def earliest_unprocessed_def
                   retention_store_def orders_topic_def example_message_def
                   new_subscription_message_def log_row_def Let_def one_enat_def)
  from trim_retention_safety [OF pk fk r]
  have "n = length (messages retention_store) - length (messages db')"
    by (elim conjE)
  then have "n = 1"
    using ids [THEN arg_cong, of length] by (simp add: retention_store_def)
  with ids rows ack show ?thesis
    unfolding r by (simp add: retention_store_def example_message_def)
qed

subsection \<open>The scheduler\<close>


lemma schedule_key_update [simp]:
  "schedule_key (r\<lparr>sched_next_occurrence_at := a, sched_repeats_made := b\<rparr>) = schedule_key r"
  by (simp add: schedule_key_def)











subsection \<open>Subscribing from the earliest position\<close>

lemma subscribe_new:
  assumes "\<forall>s \<in> set (subscriptions db). \<not> (sub_topic_id s = tid \<and> sub_name s = name)"
    and "subscribe db newId tid name options now = Inr (db', this, mismatch)"
  shows "subscriptionId this = newId
         \<and> messages db' = messages db
         \<and> subscription_messages db' =
             subscription_messages db @
             (if optStartPosition options = Some Earliest
              then map (\<lambda>m. new_subscription_message newId (msg_id m) None)
                       (filter (\<lambda>m. msg_topic_id m = tid) (messages db))
              else [])"
  using assms by (auto simp: subscribe_def Let_def split: option.splits if_splits)

lemma candidates_ids:
  "set (map (\<lambda>jr. sm_message_id (fst jr)) (candidates db sid now)) =
     sm_message_id ` {r \<in> set (subscription_messages db). reservable sid now r}"
  by (auto simp: candidates_def image_iff)

lemma insertMessages_appended:
  assumes fresh: "\<forall>m \<in> set (messages db). msg_id m \<notin> {uuid0 ..< uuid0 + length payloads}"
    and ins: "insertMessages db uuid0 tid payloads options now = (db', rows)"
  shows "messages db' = messages db @ rows
         \<and> map msg_id rows = [uuid0 ..< uuid0 + length payloads]
         \<and> subscription_messages db' =
             subscription_messages db @
             concat (map (\<lambda>s. map (\<lambda>m. new_subscription_message (sub_id s) (msg_id m)
                                          (insert_deliverAt options now)) rows)
                         (filter (\<lambda>s. sub_topic_id s = tid) (subscriptions db)))
         \<and> subscriptions db' = subscriptions db"
proof -
  let ?rows = "insert_rows uuid0 tid payloads options now"
  have rows: "rows = ?rows" and msgs: "messages db' = messages db @ ?rows"
    and subs: "subscriptions db' = subscriptions db"
    and sms: "subscription_messages db' = subscription_messages db @
          fan_out (subscriptions db) (messages db @ ?rows) tid (map msg_id ?rows)
                  (insert_deliverAt options now)"
    using ins by (auto simp: insertMessages_def Let_def)
  have ids: "set (map msg_id ?rows) = {uuid0 ..< uuid0 + length payloads}"
    by (simp add: insert_rows_ids del: upt_Suc)
  have f: "fan_out (subscriptions db) (messages db @ ?rows) tid (map msg_id ?rows)
                  (insert_deliverAt options now) =
           concat (map (\<lambda>s. map (\<lambda>m. new_subscription_message (sub_id s) (msg_id m)
                                          (insert_deliverAt options now)) ?rows)
                       (filter (\<lambda>s. sub_topic_id s = tid) (subscriptions db)))"
    by (rule fan_out_fresh) (use fresh ids insert_rows_fields in \<open>auto simp del: upt_Suc\<close>)
  show ?thesis
    unfolding rows msgs subs sms f
    by (simp add: insert_rows_ids del: upt_Suc)
qed

lemma insert_rows_deliver_at:
  "m \<in> set (insert_rows uuid0 tid payloads options now) \<Longrightarrow>
     msg_deliver_at m = insert_deliverAt options now \<and> msg_topic_id m = tid"
  by (auto simp: insert_rows_def)

lemma insert_deliverAt_cases:
  "insert_deliverAt options now =
     (case deliverAt options of
        Some d \<Rightarrow> Some d
      | None \<Rightarrow> (case deliverInMs options of
                   None \<Rightarrow> None
                 | Some ms \<Rightarrow> if ms = 0 then None else Some (now + ms)))"
  by (simp add: insert_deliverAt_def split: option.splits)

text \<open>
  Claim C10. A new subscription created with \<open>startPosition = 'earliest'\<close> gets one row per
  message of the topic, each with \<open>available_at = NULL\<close> whatever the message's
  \<open>deliver_at\<close>: every message of the topic is among the reservation candidates of the
  new subscription at every time. When the store the subscription is created in came from
  a send to the topic, that send gave every subscription the topic had one row per sent
  message, with the message's \<open>deliver_at\<close> (the \<open>deliverAt\<close> option, else the send time
  plus a non-zero \<open>deliverInMs\<close>, else \<open>NULL\<close>) in \<open>available_at\<close>: after the new
  subscription is created, a sent message is a candidate of the new subscription at every
  time, and a candidate of an older subscription exactly from its \<open>deliver_at\<close> on.
\<close>

theorem subscribe_earliest_backfill:
  assumes new: "\<forall>s \<in> set (subscriptions db). \<not> (sub_topic_id s = tid \<and> sub_name s = name)"
    and fresh: "\<forall>r \<in> set (subscription_messages db). sm_subscription_id r \<noteq> newId"
    and earliest: "optStartPosition options = Some Earliest"
    and sub: "subscribe db newId tid name options now = Inr (db', this, mismatch)"
  shows "subscriptionId this = newId
         \<and> filter (\<lambda>r. sm_subscription_id r = newId) (subscription_messages db') =
             map (\<lambda>m. \<lparr>sm_subscription_id = newId, sm_message_id = msg_id m,
                        sm_status = Waiting, sm_attempts = 0, sm_available_at = None,
                        sm_error_stack = None, sm_last_heartbeat_at = None,
                        sm_progress = None, sm_stale_count = 0\<rparr>)
                 (filter (\<lambda>m. msg_topic_id m = tid) (messages db))
         \<and> (\<forall>m \<in> set (messages db). \<forall>t.
               msg_topic_id m = tid \<longrightarrow>
               msg_id m \<in> set (map (\<lambda>jr. sm_message_id (fst jr)) (candidates db' newId t)))
         \<and> (\<forall>db0 u payloads opts t0 rows.
               (\<forall>m \<in> set (messages db0). msg_id m \<notin> {u ..< u + length payloads})
               \<and> (\<forall>r \<in> set (subscription_messages db0).
                     sm_message_id r \<notin> {u ..< u + length payloads})
               \<and> insertMessages db0 u tid payloads opts t0 = (db, rows)
               \<longrightarrow> map msg_id rows = [u ..< u + length payloads]
                   \<and> map msg_deliver_at rows =
                       replicate (length payloads)
                         (case deliverAt opts of
                            Some d \<Rightarrow> Some d
                          | None \<Rightarrow> (case deliverInMs opts of
                                       None \<Rightarrow> None
                                     | Some ms \<Rightarrow> if ms = 0 then None else Some (t0 + ms)))
                   \<and> subscription_messages db =
                       subscription_messages db0 @
                       concat (map (\<lambda>s. map (\<lambda>m. \<lparr>sm_subscription_id = sub_id s,
                                                    sm_message_id = msg_id m,
                                                    sm_status = Waiting, sm_attempts = 0,
                                                    sm_available_at = msg_deliver_at m,
                                                    sm_error_stack = None,
                                                    sm_last_heartbeat_at = None,
                                                    sm_progress = None,
                                                    sm_stale_count = 0\<rparr>) rows)
                                   (filter (\<lambda>s. sub_topic_id s = tid) (subscriptions db0)))
                   \<and> (\<forall>m \<in> set rows. \<forall>t.
                         msg_id m \<in> set (map (\<lambda>jr. sm_message_id (fst jr))
                                              (candidates db' newId t)))
                   \<and> (\<forall>m \<in> set rows. \<forall>s \<in> set (subscriptions db0). \<forall>t.
                         sub_topic_id s = tid \<longrightarrow>
                         (msg_id m \<in> set (map (\<lambda>jr. sm_message_id (fst jr))
                                               (candidates db' (sub_id s) t)))
                         = (case msg_deliver_at m of None \<Rightarrow> True | Some d \<Rightarrow> d \<le> t)))"
proof -
  let ?fill = "map (\<lambda>m. new_subscription_message newId (msg_id m) None)
                   (filter (\<lambda>m. msg_topic_id m = tid) (messages db))"
  from subscribe_new [OF new sub] earliest
  have id: "subscriptionId this = newId"
    and sms: "subscription_messages db' = subscription_messages db @ ?fill"
    by simp_all
  have old: "filter (\<lambda>r. sm_subscription_id r = newId) (subscription_messages db) = []"
    using fresh by (auto simp: filter_empty_conv)
  have rows: "filter (\<lambda>r. sm_subscription_id r = newId) (subscription_messages db') =
             map (\<lambda>m. \<lparr>sm_subscription_id = newId, sm_message_id = msg_id m,
                        sm_status = Waiting, sm_attempts = 0, sm_available_at = None,
                        sm_error_stack = None, sm_last_heartbeat_at = None,
                        sm_progress = None, sm_stale_count = 0\<rparr>)
                 (filter (\<lambda>m. msg_topic_id m = tid) (messages db))"
    unfolding sms by (simp add: old filter_map comp_def new_subscription_message_def)
  have cand: "msg_id m \<in> set (map (\<lambda>jr. sm_message_id (fst jr)) (candidates db' newId t))"
    if "m \<in> set (messages db)" "msg_topic_id m = tid" for m t
  proof -
    have "new_subscription_message newId (msg_id m) None \<in> set (subscription_messages db')"
      unfolding sms using that by auto
    moreover have "reservable newId t (new_subscription_message newId (msg_id m) None)"
      by (simp add: reservable_def new_subscription_message_def)
    moreover have "sm_message_id (new_subscription_message newId (msg_id m) None) = msg_id m"
      by (simp add: new_subscription_message_def)
    ultimately show ?thesis
      unfolding candidates_ids by (metis (mono_tags, lifting) image_eqI mem_Collect_eq)
  qed
  have fan: "map msg_id rows = [u ..< u + length payloads]
       \<and> map msg_deliver_at rows =
           replicate (length payloads)
             (case deliverAt opts of
                Some d \<Rightarrow> Some d
              | None \<Rightarrow> (case deliverInMs opts of
                           None \<Rightarrow> None
                         | Some ms \<Rightarrow> if ms = 0 then None else Some (t0 + ms)))
       \<and> subscription_messages db =
           subscription_messages db0 @
           concat (map (\<lambda>s. map (\<lambda>m. \<lparr>sm_subscription_id = sub_id s,
                                        sm_message_id = msg_id m,
                                        sm_status = Waiting, sm_attempts = 0,
                                        sm_available_at = msg_deliver_at m,
                                        sm_error_stack = None,
                                        sm_last_heartbeat_at = None,
                                        sm_progress = None,
                                        sm_stale_count = 0\<rparr>) rows)
                       (filter (\<lambda>s. sub_topic_id s = tid) (subscriptions db0)))
       \<and> (\<forall>m \<in> set rows. \<forall>t.
             msg_id m \<in> set (map (\<lambda>jr. sm_message_id (fst jr)) (candidates db' newId t)))
       \<and> (\<forall>m \<in> set rows. \<forall>s \<in> set (subscriptions db0). \<forall>t.
             sub_topic_id s = tid \<longrightarrow>
             (msg_id m \<in> set (map (\<lambda>jr. sm_message_id (fst jr))
                                   (candidates db' (sub_id s) t)))
             = (case msg_deliver_at m of None \<Rightarrow> True | Some d \<Rightarrow> d \<le> t))"
    if f1: "\<forall>m \<in> set (messages db0). msg_id m \<notin> {u ..< u + length payloads}"
      and f2: "\<forall>r \<in> set (subscription_messages db0).
                 sm_message_id r \<notin> {u ..< u + length payloads}"
      and ins: "insertMessages db0 u tid payloads opts t0 = (db, rows)"
    for db0 u payloads opts t0 rows
  proof -
    let ?av = "insert_deliverAt opts t0"
    let ?fan = "concat (map (\<lambda>s. map (\<lambda>m. new_subscription_message (sub_id s) (msg_id m) ?av)
                                      rows)
                            (filter (\<lambda>s. sub_topic_id s = tid) (subscriptions db0)))"
    from insertMessages_appended [OF f1 ins]
    have msgs: "messages db = messages db0 @ rows"
      and ids: "map msg_id rows = [u ..< u + length payloads]"
      and sm0: "subscription_messages db = subscription_messages db0 @ ?fan"
      by simp_all
    have rw: "rows = insert_rows u tid payloads opts t0"
      using ins by (auto simp: insertMessages_def Let_def)
    have dl: "msg_deliver_at m = ?av" and tp: "msg_topic_id m = tid" if "m \<in> set rows" for m
      using insert_rows_deliver_at that unfolding rw by blast+
    have len: "length rows = length payloads"
      unfolding rw by (simp add: insert_rows_def)
    have c2: "map msg_deliver_at rows =
                replicate (length payloads)
                  (case deliverAt opts of
                     Some d \<Rightarrow> Some d
                   | None \<Rightarrow> (case deliverInMs opts of
                                None \<Rightarrow> None
                              | Some ms \<Rightarrow> if ms = 0 then None else Some (t0 + ms)))"
      unfolding insert_deliverAt_cases [symmetric]
      by (rule replicate_eqI) (use dl len in auto)
    have "?fan = concat (map (\<lambda>s. map (\<lambda>m. \<lparr>sm_subscription_id = sub_id s,
                                        sm_message_id = msg_id m,
                                        sm_status = Waiting, sm_attempts = 0,
                                        sm_available_at = msg_deliver_at m,
                                        sm_error_stack = None,
                                        sm_last_heartbeat_at = None,
                                        sm_progress = None,
                                        sm_stale_count = 0\<rparr>) rows)
                       (filter (\<lambda>s. sub_topic_id s = tid) (subscriptions db0)))"
      by (rule arg_cong [where f = concat], rule map_cong [OF refl], rule map_cong [OF refl])
         (simp add: new_subscription_message_def dl)
    with sm0 have c3: "subscription_messages db =
           subscription_messages db0 @
           concat (map (\<lambda>s. map (\<lambda>m. \<lparr>sm_subscription_id = sub_id s,
                                        sm_message_id = msg_id m,
                                        sm_status = Waiting, sm_attempts = 0,
                                        sm_available_at = msg_deliver_at m,
                                        sm_error_stack = None,
                                        sm_last_heartbeat_at = None,
                                        sm_progress = None,
                                        sm_stale_count = 0\<rparr>) rows)
                       (filter (\<lambda>s. sub_topic_id s = tid) (subscriptions db0)))"
      by simp
    have c4: "msg_id m \<in> set (map (\<lambda>jr. sm_message_id (fst jr)) (candidates db' newId t))"
      if "m \<in> set rows" for m t
      using cand [of m t] that tp [of m] by (simp add: msgs)
    have c5: "(msg_id m \<in> set (map (\<lambda>jr. sm_message_id (fst jr))
                                   (candidates db' (sub_id s) t)))
             = (case msg_deliver_at m of None \<Rightarrow> True | Some d \<Rightarrow> d \<le> t)"
      if m: "m \<in> set rows" and s: "s \<in> set (subscriptions db0)" and st: "sub_topic_id s = tid"
      for m s t
    proof -
      have mid: "msg_id m \<in> {u ..< u + length payloads}"
      proof -
        from m have "msg_id m \<in> set (map msg_id rows)" by simp
        then show ?thesis unfolding ids by simp
      qed
      have row: "new_subscription_message (sub_id s) (msg_id m) ?av \<in> set ?fan"
        using m s st by auto
      then have "new_subscription_message (sub_id s) (msg_id m) ?av
                   \<in> set (subscription_messages db)"
        unfolding sm0 by simp
      with fresh have ne: "sub_id s \<noteq> newId"
        by (auto simp: new_subscription_message_def)
      have rs: "reservable (sub_id s) t r
                  = (case msg_deliver_at m of None \<Rightarrow> True | Some d \<Rightarrow> d \<le> t)"
        if "r \<in> set (subscription_messages db')" "sm_message_id r = msg_id m"
           "sm_subscription_id r = sub_id s" for r
      proof -
        from that(1) have "r \<in> set (subscription_messages db0) \<or> r \<in> set ?fan
                            \<or> r \<in> set ?fill"
          unfolding sms sm0 by auto
        moreover have "r \<notin> set (subscription_messages db0)"
          using f2 mid that(2) by auto
        moreover have "r \<notin> set ?fill"
          using ne that(3) by (auto simp: new_subscription_message_def)
        ultimately have "r \<in> set ?fan" by blast
        then obtain s' :: subscription_row and m' :: message_row
          where "r = new_subscription_message (sub_id s') (msg_id m') ?av"
          by auto
        then show ?thesis
          using that(3) dl [OF m]
          by (auto simp: new_subscription_message_def reservable_def split: option.splits)
      qed
      have in': "new_subscription_message (sub_id s) (msg_id m) ?av
                   \<in> set (subscription_messages db')"
        unfolding sms sm0 using row by simp
      show ?thesis
      proof
        assume "msg_id m \<in> set (map (\<lambda>jr. sm_message_id (fst jr))
                                     (candidates db' (sub_id s) t))"
        then obtain r where r: "r \<in> set (subscription_messages db')"
          "reservable (sub_id s) t r" "sm_message_id r = msg_id m"
          unfolding candidates_ids by auto
        from r(2) have "sm_subscription_id r = sub_id s"
          by (simp add: reservable_def)
        from rs [OF r(1) r(3) this] r(2)
        show "case msg_deliver_at m of None \<Rightarrow> True | Some d \<Rightarrow> d \<le> t" by simp
      next
        assume a: "case msg_deliver_at m of None \<Rightarrow> True | Some d \<Rightarrow> d \<le> t"
        let ?r = "new_subscription_message (sub_id s) (msg_id m) ?av"
        have "reservable (sub_id s) t ?r"
          using rs [OF in'] a by (simp add: new_subscription_message_def)
        moreover have "sm_message_id ?r = msg_id m"
          by (simp add: new_subscription_message_def)
        ultimately show "msg_id m \<in> set (map (\<lambda>jr. sm_message_id (fst jr))
                                     (candidates db' (sub_id s) t))"
          unfolding candidates_ids using in'
          by (metis (mono_tags, lifting) image_eqI mem_Collect_eq)
      qed
    qed
    from ids c2 c3 c4 c5 show ?thesis by blast
  qed
  show ?thesis
    using id rows cand fan by blast
qed

theorem subscribe_earliest_backfill_witness:
  "insertMessages quiet_store 20 0 [''{}''] delay_options 1000 =
     (delayed_store, messages delayed_store)
   \<and> map (\<lambda>r. (sm_subscription_id r, sm_message_id r, sm_available_at r))
       (subscription_messages delayed_store) = [(2, 20, Some 5000)]
   \<and> map_sum id (\<lambda>(db', this, mismatch).
                   (subscriptionId this,
                    map (\<lambda>r. (sm_subscription_id r, sm_message_id r, sm_available_at r))
                        (subscription_messages db'),
                    map (\<lambda>jr. sm_message_id (fst jr)) (candidates db' 4 1002),
                    map (\<lambda>jr. sm_message_id (fst jr)) (candidates db' 2 1002),
                    map (\<lambda>jr. sm_message_id (fst jr)) (candidates db' 2 4999),
                    map (\<lambda>jr. sm_message_id (fst jr)) (candidates db' 2 5000)))
             (subscribe delayed_store 4 0 ''replay'' replay_options 1001)
       = Inr (4, [(2, 20, Some 5000), (4, 20, None)], [20], [], [], [20])"
proof -
  have new: "\<forall>s \<in> set (subscriptions delayed_store).
               \<not> (sub_topic_id s = 0 \<and> sub_name s = ''replay'')"
    by (simp add: delayed_store_def jobs_row_def)
  have fresh: "\<forall>r \<in> set (subscription_messages delayed_store). sm_subscription_id r \<noteq> 4"
    by (simp add: delayed_store_def new_subscription_message_def)
  have earliest: "optStartPosition replay_options = Some Earliest"
    by (simp add: replay_options_def)
  define db' where "db' = delayed_store
                \<lparr>subscriptions := subscriptions delayed_store @
                   [\<lparr>sub_id = 4, sub_topic_id = 0, sub_name = ''replay'', sub_created_at = 1001,
                     sub_processing = False, sub_consumption_mode = Parallel,
                     sub_start_position = Earliest, sub_max_attempts = 1,
                     sub_retry_strategy = Linear, sub_retry_delay = 0\<rparr>],
                 subscription_messages := subscription_messages delayed_store @
                   [new_subscription_message 4 20 None]\<rparr>"
  define this where "this =
     \<lparr>subscriptionId = 4, subscriptionName = ''replay'', consumptionMode = Parallel,
      startPosition = Earliest, maxAttempts = 1, retryStrategy = Linear, retryDelay = 0\<rparr>"
  have sub: "subscribe delayed_store 4 0 ''replay'' replay_options 1001 = Inr (db', this, False)"
    by (simp add: subscribe_def delayed_store_def jobs_row_def Let_def replay_options_def
                  example_message_def db'_def this_def)
  have ins: "insertMessages quiet_store 20 0 [''{}''] delay_options 1000 =
               (delayed_store, messages delayed_store)"
    by (simp add: insertMessages_def insert_rows_def insert_deliverAt_def fan_out_def Let_def
                  quiet_store_def delay_options_def delayed_store_def jobs_row_def
                  example_message_def)
  have f1: "\<forall>m \<in> set (messages quiet_store). msg_id m \<notin> {20 ..< 20 + length [''{}'']}"
    and f2: "\<forall>r \<in> set (subscription_messages quiet_store).
               sm_message_id r \<notin> {20 ..< 20 + length [''{}'']}"
    by (simp_all add: quiet_store_def)
  from subscribe_earliest_backfill [OF new fresh earliest sub]
  have "\<forall>db0 u payloads opts t0 rows.
               (\<forall>m \<in> set (messages db0). msg_id m \<notin> {u ..< u + length payloads})
               \<and> (\<forall>r \<in> set (subscription_messages db0).
                     sm_message_id r \<notin> {u ..< u + length payloads})
               \<and> insertMessages db0 u 0 payloads opts t0 = (delayed_store, rows)
               \<longrightarrow> map msg_id rows = [u ..< u + length payloads]
                   \<and> map msg_deliver_at rows =
                       replicate (length payloads)
                         (case deliverAt opts of
                            Some d \<Rightarrow> Some d
                          | None \<Rightarrow> (case deliverInMs opts of
                                       None \<Rightarrow> None
                                     | Some ms \<Rightarrow> if ms = 0 then None else Some (t0 + ms)))
                   \<and> subscription_messages delayed_store =
                       subscription_messages db0 @
                       concat (map (\<lambda>s. map (\<lambda>m. \<lparr>sm_subscription_id = sub_id s,
                                                    sm_message_id = msg_id m,
                                                    sm_status = Waiting, sm_attempts = 0,
                                                    sm_available_at = msg_deliver_at m,
                                                    sm_error_stack = None,
                                                    sm_last_heartbeat_at = None,
                                                    sm_progress = None,
                                                    sm_stale_count = 0\<rparr>) rows)
                                   (filter (\<lambda>s. sub_topic_id s = 0) (subscriptions db0)))
                   \<and> (\<forall>m \<in> set rows. \<forall>t.
                         msg_id m \<in> set (map (\<lambda>jr. sm_message_id (fst jr))
                                              (candidates db' 4 t)))
                   \<and> (\<forall>m \<in> set rows. \<forall>s \<in> set (subscriptions db0). \<forall>t.
                         sub_topic_id s = 0 \<longrightarrow>
                         (msg_id m \<in> set (map (\<lambda>jr. sm_message_id (fst jr))
                                               (candidates db' (sub_id s) t)))
                         = (case msg_deliver_at m of None \<Rightarrow> True | Some d \<Rightarrow> d \<le> t))"
    by (elim conjE)
  with f1 f2 ins
  have "\<forall>m \<in> set (messages delayed_store). \<forall>s \<in> set (subscriptions quiet_store). \<forall>t.
          sub_topic_id s = 0 \<longrightarrow>
          (msg_id m \<in> set (map (\<lambda>jr. sm_message_id (fst jr)) (candidates db' (sub_id s) t)))
          = (case msg_deliver_at m of None \<Rightarrow> True | Some d \<Rightarrow> d \<le> t)"
    by blast
  then have "\<forall>t. (20 \<in> set (map (\<lambda>jr. sm_message_id (fst jr)) (candidates db' 2 t)))
                  = (5000 \<le> t)"
    by (simp add: delayed_store_def quiet_store_def jobs_row_def example_message_def)
  then have "20 \<notin> set (map (\<lambda>jr. sm_message_id (fst jr)) (candidates db' 2 1002))"
    by simp
  moreover have "set (map (\<lambda>jr. sm_message_id (fst jr)) (candidates db' 2 1002)) \<subseteq> {20}"
    by (simp add: db'_def candidates_def delayed_store_def new_subscription_message_def
                  reservable_def example_message_def)
  ultimately have early: "map (\<lambda>jr. sm_message_id (fst jr)) (candidates db' 2 1002) = []"
    by (cases "map (\<lambda>jr. sm_message_id (fst jr)) (candidates db' 2 1002)") auto
  show ?thesis
    unfolding sub ins
    by (simp add: early)
       (simp add: db'_def this_def candidates_def reservable_def delayed_store_def
                  new_subscription_message_def reservation_key_def joined_priority_def)
qed


subsection \<open>Subscribing twice\<close>

text \<open>
  Claim C9 on the code. Topic \<open>0\<close> subscribes \<open>audit\<close> with the default options while
  topic \<open>7\<close> already has a subscription of that name. The first call creates the
  subscription with id 5. The second call, with the same options, finds the conflict on
  (topic, name) and then reads the existing row by name alone: it returns the
  subscription of topic \<open>7\<close>, id 3 with its parallel mode, and reports a mismatch of
  options. The store is unchanged by the second call.
\<close>

theorem subscribe_twice_other_topic:
  "subscribe other_topic_store 5 0 ''audit'' default_subscription_options 10
     = Inr (same_name_store, subscription_object orders_audit_row, False)
   \<and> subscribe same_name_store 9 0 ''audit'' default_subscription_options 50
     = Inr (same_name_store, subscription_object audit_row, True)
   \<and> subscriptionId (subscription_object orders_audit_row) = 5
   \<and> subscriptionId (subscription_object audit_row) = 3
   \<and> consumptionMode (subscription_object audit_row) = Parallel"
  by (simp add: subscribe_def same_name_store_def other_topic_store_def audit_row_def
                orders_audit_row_def default_subscription_options_def subscription_object_def
                Let_def)

theorem subscribe_twice_other_topic_witness:
  "map_sum id (\<lambda>(db', this, mismatch). (db' = same_name_store, subscriptionId this, mismatch))
           (subscribe same_name_store 9 0 ''audit'' default_subscription_options 50)
     = Inr (True, 3, True)"
  using subscribe_twice_other_topic by simp

subsection \<open>What each operation does to the tables\<close>

lemma reserved_message_fields [simp]:
  "subscription (reserved_message this now jr) = this"
  "messageId (reserved_message this now jr) = sm_message_id (fst jr)"
  "attempts (reserved_message this now jr) = sm_attempts (fst jr) + 1"
  by (simp_all add: reserved_message_def)


















subsection \<open>The schema constraints are kept\<close>




lemma subscription_object_flag [simp]:
  "subscription_object (row\<lparr>sub_processing := b\<rparr>) = subscription_object row"
  by (simp add: subscription_object_def)

lemma subscription_object_id [simp]:
  "subscriptionId (subscription_object row) = sub_id row"
  "consumptionMode (subscription_object row) = sub_consumption_mode row"
  "maxAttempts (subscription_object row) = sub_max_attempts row"
  "retryStrategy (subscription_object row) = sub_retry_strategy row"
  "retryDelay (subscription_object row) = sub_retry_delay row"
  by (simp_all add: subscription_object_def)

lemma row_key_fields [simp]:
  "row_key (r\<lparr>sm_status := a\<rparr>) = row_key r"
  "row_key (r\<lparr>sm_attempts := n\<rparr>) = row_key r"
  "row_key (r\<lparr>sm_available_at := b\<rparr>) = row_key r"
  "row_key (r\<lparr>sm_error_stack := c\<rparr>) = row_key r"
  "row_key (r\<lparr>sm_last_heartbeat_at := d\<rparr>) = row_key r"
  "row_key (r\<lparr>sm_progress := e\<rparr>) = row_key r"
  "row_key (r\<lparr>sm_stale_count := k\<rparr>) = row_key r"
  by (simp_all add: row_key_def)



























subsection \<open>Reachable states\<close>






subsection \<open>Sequential consumption\<close>

text \<open>
  Claim C1. The run \<open>late_completion_trace\<close> of the sequential subscription \<open>log\<close>. After
  \<open>orderly_trace\<close> message 10 is \<open>completed\<close>, message 11 is \<open>processing\<close> and the
  \<open>processing\<close> flag is raised. The consumer of the first delivery of message 10, which
  the stale sweep had re-opened, then calls \<open>complete()\<close>: the row of message 10 is
  \<open>completed\<close> already, and the flag is lowered while message 11 is \<open>processing\<close>. The
  next reservation finds the flag lowered and takes message 12: the rows of messages 11
  and 12 are both \<open>processing\<close>.
\<close>

theorem sequential_exclusivity_late_completion:
  "outcome orderly_trace
     = Some ([(1, Sequential, 1, True)],
             [(1, 10, Completed, 2, 1), (1, 11, Processing, 1, 0), (1, 12, Waiting, 0, 0)])
   \<and> outcome (orderly_trace @ [Complete (delivery 10 1 0 1000)])
       = Some ([(1, Sequential, 1, False)],
               [(1, 10, Completed, 2, 1), (1, 11, Processing, 1, 0), (1, 12, Waiting, 0, 0)])
   \<and> outcome late_completion_trace
       = Some ([(1, Sequential, 1, True)],
               [(1, 10, Completed, 2, 1), (1, 11, Processing, 1, 0),
                (1, 12, Processing, 1, 0)])
   \<and> processing_after late_completion_trace 1 = Some [11, 12]"
  by code_simp

subsection \<open>Retry accounting\<close>






end
